theory Spec2Isabelle
  imports Main "HOL-Library.AList"
begin

section \<open>The endpoint registry (helpers/endpoint\_registry.py)\<close>

text \<open>
  A \<open>datetime\<close> is an integer count of microseconds; every \<open>datetime.utcnow()\<close> of the
  source is a parameter of the operation that reads the clock. Python dictionaries are
  association lists in insertion order (\<open>AList.update\<close> keeps the position of a key that
  is already present and appends a new one, \<open>AList.delete\<close> is \<open>pop\<close>/\<open>del\<close>); a
  \<open>Set[str]\<close> is a list without duplicates.
\<close>

type_synonym time = int

record endpoint_info =
  ep_name :: string
  ep_url :: string
  ep_headers :: "(string \<times> string) list"
  ep_allow_mutations :: bool
  ep_tool_prefix :: string
  ep_schema_content :: "string option"

text \<open>
  \<open>SchemaInfo\<close>: the registry reads only \<open>version\<close>; the type descriptors are kept as
  their names.
\<close>

record schema_info =
  sc_type_names :: "string list"
  sc_last_modified :: time
  sc_version :: string

text \<open>
  The statistics dictionary of one endpoint. The source builds it in one place
  (\<open>register_endpoint\<close>) with exactly these eight keys, so it is a record here.
\<close>

record endpoint_stats =
  registered_at :: time
  last_accessed :: "time option"
  access_count :: int
  tool_count :: int
  schema_version :: string
  last_introspection :: "time option"
  error_count :: int
  success_count :: int

text \<open>
  The state of \<open>EndpointRegistryService\<close>. \<open>lock_held\<close> is the state of the class-level
  \<open>asyncio.Lock\<close>, which is not re-entrant: a coroutine that awaits the lock while it
  is held waits until somebody releases it.
\<close>

record registry =
  endpoints :: "(string \<times> endpoint_info) list"
  endpoint_schemas :: "(string \<times> schema_info) list"
  tool_to_endpoint :: "(string \<times> string) list"
  endpoint_to_tools :: "(string \<times> string list) list"
  endpoint_stats :: "(string \<times> endpoint_stats) list"
  last_updated :: "(string \<times> time) list"
  lock_held :: bool

definition new_registry :: registry where
  "new_registry =
     \<lparr> endpoints = [], endpoint_schemas = [], tool_to_endpoint = [],
       endpoint_to_tools = [], endpoint_stats = [], last_updated = [],
       lock_held = False \<rparr>"

text \<open>
  \<open>async with self._lock\<close>: entering acquires the lock, leaving releases it. An operation
  is a function into \<open>option\<close>; \<open>None\<close> is the call that never returns because it waits
  for a lock nobody will release.
\<close>

definition acquire :: "registry \<Rightarrow> registry option" where
  "acquire s = (if lock_held s then None else Some (s\<lparr>lock_held := True\<rparr>))"

definition release :: "registry \<Rightarrow> registry" where
  "release s = s\<lparr>lock_held := False\<rparr>"

definition fresh_stats :: "time \<Rightarrow> schema_info option \<Rightarrow> endpoint_stats" where
  "fresh_stats now schema =
     \<lparr> registered_at = now, last_accessed = None, access_count = 0, tool_count = 0,
       schema_version = (case schema of Some sc \<Rightarrow> sc_version sc | None \<Rightarrow> []),
       last_introspection = None, error_count = 0, success_count = 0 \<rparr>"

text \<open>
  \<open>register_endpoint\<close> reads the clock twice (\<open>registered_at\<close>, then \<open>_last_updated\<close>).
  A pydantic model is always truthy, so \<open>if schema_info:\<close> tests for \<open>None\<close>.
\<close>

definition register_endpoint ::
  "time \<Rightarrow> time \<Rightarrow> endpoint_info \<Rightarrow> schema_info option \<Rightarrow> registry \<Rightarrow> (bool \<times> registry) option"
where
  "register_endpoint t_registered t_updated info schema s =
     (case acquire s of
        None \<Rightarrow> None
      | Some s1 \<Rightarrow>
          let endpoint_name = ep_name info;
              s2 = s1\<lparr>endpoints := AList.update endpoint_name info (endpoints s1)\<rparr>;
              s3 = (case schema of
                      Some sc \<Rightarrow>
                        s2\<lparr>endpoint_schemas := AList.update endpoint_name sc (endpoint_schemas s2)\<rparr>
                    | None \<Rightarrow> s2);
              s4 = s3\<lparr>endpoint_stats :=
                       AList.update endpoint_name (fresh_stats t_registered schema) (endpoint_stats s3)\<rparr>;
              s5 = s4\<lparr>last_updated := AList.update endpoint_name t_updated (last_updated s4)\<rparr>
          in Some (True, release s5))"

text \<open>\<open>self._endpoint_to_tools.get(endpoint_name, set())\<close>.\<close>

definition tools_of :: "registry \<Rightarrow> string \<Rightarrow> string list" where
  "tools_of s endpoint_name =
     (case map_of (endpoint_to_tools s) endpoint_name of None \<Rightarrow> [] | Some ts \<Rightarrow> ts)"

definition set_add :: "string \<Rightarrow> string list \<Rightarrow> string list" where
  "set_add t ts = (if t \<in> set ts then ts else ts @ [t])"

text \<open>
  \<open>_remove_tool\<close> takes no lock (its caller holds it). \<open>if endpoint_name:\<close> is false for
  \<open>None\<close> and for the empty string. Indexing the \<open>defaultdict\<close> creates the entry.
\<close>

definition remove_tool :: "string \<Rightarrow> registry \<Rightarrow> bool \<times> registry" where
  "remove_tool tool_name s =
     (let s1 =
        (case map_of (tool_to_endpoint s) tool_name of
           None \<Rightarrow> s
         | Some endpoint_name \<Rightarrow>
             if endpoint_name = [] then s
             else
               let ts = removeAll tool_name (tools_of s endpoint_name);
                   s' = s\<lparr>endpoint_to_tools := AList.update endpoint_name ts (endpoint_to_tools s)\<rparr>
               in (case map_of (endpoint_stats s') endpoint_name of
                     None \<Rightarrow> s'
                   | Some st \<Rightarrow>
                       s'\<lparr>endpoint_stats :=
                            AList.update endpoint_name (st\<lparr>tool_count := int (length ts)\<rparr>)
                              (endpoint_stats s')\<rparr>))
      in (True, s1\<lparr>tool_to_endpoint := AList.delete tool_name (tool_to_endpoint s1)\<rparr>))"

fun remove_tools :: "string list \<Rightarrow> registry \<Rightarrow> registry" where
  "remove_tools [] s = s"
| "remove_tools (t # ts) s = remove_tools ts (snd (remove_tool t s))"

definition unregister_endpoint :: "string \<Rightarrow> registry \<Rightarrow> (bool \<times> registry) option" where
  "unregister_endpoint endpoint_name s =
     (case acquire s of
        None \<Rightarrow> None
      | Some s1 \<Rightarrow>
          if map_of (endpoints s1) endpoint_name = None then Some (False, release s1)
          else
            let tools_to_remove = tools_of s1 endpoint_name;
                s2 = remove_tools tools_to_remove s1;
                s3 = s2\<lparr> endpoints := AList.delete endpoint_name (endpoints s2),
                         endpoint_schemas := AList.delete endpoint_name (endpoint_schemas s2),
                         endpoint_stats := AList.delete endpoint_name (endpoint_stats s2),
                         last_updated := AList.delete endpoint_name (last_updated s2),
                         endpoint_to_tools := AList.delete endpoint_name (endpoint_to_tools s2) \<rparr>
            in Some (True, release s3))"

definition get_endpoint_schema :: "string \<Rightarrow> registry \<Rightarrow> (schema_info option \<times> registry) option" where
  "get_endpoint_schema endpoint_name s =
     (case acquire s of
        None \<Rightarrow> None
      | Some s1 \<Rightarrow> Some (map_of (endpoint_schemas s1) endpoint_name, release s1))"

definition update_endpoint_schema ::
  "time \<Rightarrow> time \<Rightarrow> string \<Rightarrow> schema_info \<Rightarrow> registry \<Rightarrow> (bool \<times> registry) option"
where
  "update_endpoint_schema t_updated t_introspection endpoint_name schema s =
     (case acquire s of
        None \<Rightarrow> None
      | Some s1 \<Rightarrow>
          if map_of (endpoints s1) endpoint_name = None then Some (False, release s1)
          else
            let s2 = s1\<lparr> endpoint_schemas := AList.update endpoint_name schema (endpoint_schemas s1),
                         last_updated := AList.update endpoint_name t_updated (last_updated s1) \<rparr>;
                s3 = (case map_of (endpoint_stats s2) endpoint_name of
                        None \<Rightarrow> s2
                      | Some st \<Rightarrow>
                          s2\<lparr>endpoint_stats :=
                               AList.update endpoint_name
                                 (st\<lparr> schema_version := sc_version schema,
                                       last_introspection := Some t_introspection \<rparr>)
                                 (endpoint_stats s2)\<rparr>)
            in Some (True, release s3))"

definition register_tool :: "string \<Rightarrow> string \<Rightarrow> registry \<Rightarrow> (bool \<times> registry) option" where
  "register_tool tool_name endpoint_name s =
     (case acquire s of
        None \<Rightarrow> None
      | Some s1 \<Rightarrow>
          if map_of (endpoints s1) endpoint_name = None then Some (False, release s1)
          else
            let s2 = s1\<lparr>tool_to_endpoint := AList.update tool_name endpoint_name (tool_to_endpoint s1)\<rparr>;
                ts = set_add tool_name (tools_of s2 endpoint_name);
                s3 = s2\<lparr>endpoint_to_tools := AList.update endpoint_name ts (endpoint_to_tools s2)\<rparr>;
                s4 = (case map_of (endpoint_stats s3) endpoint_name of
                        None \<Rightarrow> s3
                      | Some st \<Rightarrow>
                          s3\<lparr>endpoint_stats :=
                               AList.update endpoint_name (st\<lparr>tool_count := int (length ts)\<rparr>)
                                 (endpoint_stats s3)\<rparr>)
            in Some (True, release s4))"

definition get_endpoint_for_tool :: "string \<Rightarrow> registry \<Rightarrow> (string option \<times> registry) option" where
  "get_endpoint_for_tool tool_name s =
     (case acquire s of
        None \<Rightarrow> None
      | Some s1 \<Rightarrow> Some (map_of (tool_to_endpoint s1) tool_name, release s1))"

definition get_tools_for_endpoint :: "string \<Rightarrow> registry \<Rightarrow> (string list \<times> registry) option" where
  "get_tools_for_endpoint endpoint_name s =
     (case acquire s of
        None \<Rightarrow> None
      | Some s1 \<Rightarrow> Some (tools_of s1 endpoint_name, release s1))"

definition get_endpoint_stats :: "string \<Rightarrow> registry \<Rightarrow> (endpoint_stats option \<times> registry) option" where
  "get_endpoint_stats endpoint_name s =
     (case acquire s of
        None \<Rightarrow> None
      | Some s1 \<Rightarrow> Some (map_of (endpoint_stats s1) endpoint_name, release s1))"

definition record_endpoint_access :: "time \<Rightarrow> string \<Rightarrow> bool \<Rightarrow> registry \<Rightarrow> (unit \<times> registry) option" where
  "record_endpoint_access now endpoint_name success s =
     (case acquire s of
        None \<Rightarrow> None
      | Some s1 \<Rightarrow>
          (case map_of (endpoint_stats s1) endpoint_name of
             None \<Rightarrow> Some ((), release s1)
           | Some stats \<Rightarrow>
               let st1 = stats\<lparr> last_accessed := Some now, access_count := access_count stats + 1 \<rparr>;
                   st2 = (if success then st1\<lparr>success_count := success_count st1 + 1\<rparr>
                          else st1\<lparr>error_count := error_count st1 + 1\<rparr>)
               in Some ((), release (s1\<lparr>endpoint_stats :=
                                          AList.update endpoint_name st2 (endpoint_stats s1)\<rparr>))))"

text \<open>
  Staleness: \<open>(current_time - last_accessed).total_seconds() / 3600 > max_age_hours\<close>. The
  source divides in floating point; here the comparison is exact, on microseconds.
\<close>

definition is_stale :: "time \<Rightarrow> int \<Rightarrow> endpoint_stats \<Rightarrow> bool" where
  "is_stale current_time max_age_hours stats =
     (let reference = (case last_accessed stats of None \<Rightarrow> registered_at stats | Some t \<Rightarrow> t)
      in current_time - reference > max_age_hours * 3600 * 1000000)"

definition stale_endpoints :: "time \<Rightarrow> int \<Rightarrow> registry \<Rightarrow> string list" where
  "stale_endpoints current_time max_age_hours s =
     map fst (filter (\<lambda>(endpoint_name, stats). is_stale current_time max_age_hours stats)
                (endpoint_stats s))"

text \<open>
  The removal loop of \<open>cleanup_stale_endpoints\<close>: each iteration awaits the public
  \<open>unregister_endpoint\<close>, which enters \<open>async with self._lock\<close> itself.
\<close>

fun unregister_each :: "string list \<Rightarrow> registry \<Rightarrow> registry option" where
  "unregister_each [] s = Some s"
| "unregister_each (n # ns) s =
     (case unregister_endpoint n s of
        None \<Rightarrow> None
      | Some (ok, s') \<Rightarrow> unregister_each ns s')"

definition cleanup_stale_endpoints :: "time \<Rightarrow> int \<Rightarrow> registry \<Rightarrow> (int \<times> registry) option" where
  "cleanup_stale_endpoints current_time max_age_hours s =
     (case acquire s of
        None \<Rightarrow> None
      | Some s1 \<Rightarrow>
          let stale = stale_endpoints current_time max_age_hours s1
          in (case unregister_each stale s1 of
                None \<Rightarrow> None
              | Some s2 \<Rightarrow> Some (int (length stale), release s2)))"

text \<open>A caller's view of the registry: one public call after another.\<close>

datatype registry_call =
    RegisterEndpoint time time endpoint_info "schema_info option"
  | UnregisterEndpoint string
  | UpdateEndpointSchema time time string schema_info
  | RegisterTool string string
  | RecordEndpointAccess time string bool
  | CleanupStaleEndpoints time int

fun call :: "registry_call \<Rightarrow> registry \<Rightarrow> registry option" where
  "call (RegisterEndpoint t1 t2 info schema) s = map_option snd (register_endpoint t1 t2 info schema s)"
| "call (UnregisterEndpoint n) s = map_option snd (unregister_endpoint n s)"
| "call (UpdateEndpointSchema t1 t2 n schema) s = map_option snd (update_endpoint_schema t1 t2 n schema s)"
| "call (RegisterTool t n) s = map_option snd (register_tool t n s)"
| "call (RecordEndpointAccess now n ok) s = map_option snd (record_endpoint_access now n ok s)"
| "call (CleanupStaleEndpoints now age) s = map_option snd (cleanup_stale_endpoints now age s)"

fun calls :: "registry_call list \<Rightarrow> registry \<Rightarrow> registry option" where
  "calls [] s = Some s"
| "calls (c # cs) s = (case call c s of None \<Rightarrow> None | Some s' \<Rightarrow> calls cs s')"


section \<open>The batch execution engine (helpers/combined\_operations.py)\<close>

text \<open>
  An operation is a \<open>Dict[str, Any]\<close>: the values are Python values of any type. The
  values modelled are \<open>None\<close>, booleans, integers, strings, lists and dictionaries with
  string keys.
\<close>

datatype pyval =
    PNone
  | PBool bool
  | PInt int
  | PStr string
  | PList "pyval list"
  | PDict "(string \<times> pyval) list"

type_synonym operation = "(string \<times> pyval) list"

text \<open>\<open>operation.get(key, default)\<close>.\<close>

definition dict_get :: "operation \<Rightarrow> string \<Rightarrow> pyval \<Rightarrow> pyval" where
  "dict_get d key dflt = (case map_of d key of None \<Rightarrow> dflt | Some v \<Rightarrow> v)"

text \<open>Decimal digits of an integer, for the f-strings.\<close>

fun str_nat :: "nat \<Rightarrow> string" where
  "str_nat n = (if n < 10 then [char_of (48 + n)] else str_nat (n div 10) @ [char_of (48 + n mod 10)])"

declare str_nat.simps [simp del]

definition str_int :: "int \<Rightarrow> string" where
  "str_int i = (if i < 0 then CHR ''-'' # str_nat (nat (- i)) else str_nat (nat i))"

text \<open>
  The text an f-string gives for a value. The \<open>repr\<close> of a list or a dictionary is not
  modelled: the one place that formats a value of unknown type is reached with hashable
  values only.
\<close>

fun py_format :: "pyval \<Rightarrow> string option" where
  "py_format PNone = Some ''None''"
| "py_format (PBool b) = Some (if b then ''True'' else ''False'')"
| "py_format (PInt i) = Some (str_int i)"
| "py_format (PStr s) = Some s"
| "py_format (PList xs) = None"
| "py_format (PDict d) = None"

text \<open>\<open>sep.join(parts)\<close>.\<close>

fun join :: "string \<Rightarrow> string list \<Rightarrow> string" where
  "join sep [] = []"
| "join sep [x] = x"
| "join sep (x # y # ys) = x @ sep @ join sep (y # ys)"

text \<open>
  The four values \<open>_execute_single_operation\<close> and the handlers read from an operation:
  \<open>operation.get("name", f"operation_{index}")\<close>, \<open>operation.get("endpoint", "")\<close>,
  \<open>operation.get("query", "")\<close> and \<open>operation.get("variables", {})\<close>.
\<close>

definition op_name :: "operation \<Rightarrow> nat \<Rightarrow> pyval" where
  "op_name operation index = dict_get operation ''name'' (PStr (''operation_'' @ str_nat index))"

definition op_endpoint :: "operation \<Rightarrow> pyval" where
  "op_endpoint operation = dict_get operation ''endpoint'' (PStr [])"

definition op_query :: "operation \<Rightarrow> pyval" where
  "op_query operation = dict_get operation ''query'' (PStr [])"

definition op_variables :: "operation \<Rightarrow> pyval" where
  "op_variables operation = dict_get operation ''variables'' (PDict [])"

text \<open>
  Exceptions. \<open>ValidationError\<close> is what pydantic raises when a model is built from
  values that do not fit its field types; it carries the model and the rejected fields.
  \<open>fault_str\<close> is \<open>str(e)\<close>; for a validation error it gives pydantic's header line and
  the field names, without the per-field detail lines.
\<close>

datatype fault =
    ValidationError string "string list"
  | TypeError string
  | GatewayFault string

definition fault_str :: "fault \<Rightarrow> string" where
  "fault_str e =
     (case e of
        ValidationError model rejected \<Rightarrow>
          str_nat (length rejected) @ '' validation error''
            @ (if length rejected = 1 then [] else ''s'')
            @ '' for '' @ model @ concat (map (\<lambda>f. CHR 0x0A # f) rejected)
      | TypeError msg \<Rightarrow> msg
      | GatewayFault msg \<Rightarrow> msg)"

text \<open>
  \<open>BatchOperationResult\<close> (models/batch.py). The fields the engine never sets
  (\<open>was_retried\<close>, \<open>retry_attempts\<close>, \<open>status_code\<close>, \<open>headers\<close>) keep their defaults and
  are left out. \<open>execution_time\<close> is a \<open>timedelta\<close> in microseconds.
\<close>

record batch_operation_result =
  r_name :: string
  r_success :: bool
  r_data :: pyval
  r_error :: "string option"
  r_execution_time :: int
  r_index :: int
  r_endpoint :: string
  r_query :: "string option"
  r_variables :: "(string \<times> pyval) list option"

text \<open>
  Building a \<open>BatchOperationResult\<close>: pydantic validates the arguments against the field
  types \<open>name: str\<close>, \<open>endpoint: str\<close>, \<open>query: Optional[str]\<close>,
  \<open>variables: Optional[Dict[str, Any]]\<close> (\<open>data\<close> is \<open>Optional[Any]\<close>; \<open>success\<close>,
  \<open>error\<close>, \<open>execution_time\<close> and \<open>index\<close> are passed with their own types). It does not
  turn \<open>None\<close>, a number or a container into a string. All rejected fields are reported
  in one \<open>ValidationError\<close>, in field order. An argument the caller leaves out takes the
  field's default, which is \<open>None\<close> for \<open>data\<close>, \<open>query\<close> and \<open>variables\<close> and zero for
  \<open>execution_time\<close>.
\<close>

definition is_str :: "pyval \<Rightarrow> bool" where
  "is_str v = (case v of PStr s \<Rightarrow> True | _ \<Rightarrow> False)"

definition is_optional_str :: "pyval \<Rightarrow> bool" where
  "is_optional_str v = (case v of PNone \<Rightarrow> True | PStr s \<Rightarrow> True | _ \<Rightarrow> False)"

definition is_optional_dict :: "pyval \<Rightarrow> bool" where
  "is_optional_dict v = (case v of PNone \<Rightarrow> True | PDict d \<Rightarrow> True | _ \<Rightarrow> False)"

definition the_str :: "pyval \<Rightarrow> string" where
  "the_str v = (case v of PStr s \<Rightarrow> s | _ \<Rightarrow> [])"

definition the_optional_str :: "pyval \<Rightarrow> string option" where
  "the_optional_str v = (case v of PStr s \<Rightarrow> Some s | _ \<Rightarrow> None)"

definition the_optional_dict :: "pyval \<Rightarrow> (string \<times> pyval) list option" where
  "the_optional_dict v = (case v of PDict d \<Rightarrow> Some d | _ \<Rightarrow> None)"

definition rejected_fields :: "pyval \<Rightarrow> pyval \<Rightarrow> pyval \<Rightarrow> pyval \<Rightarrow> string list" where
  "rejected_fields name endpoint query variables =
     (if is_str name then [] else [''name''])
     @ (if is_str endpoint then [] else [''endpoint''])
     @ (if is_optional_str query then [] else [''query''])
     @ (if is_optional_dict variables then [] else [''variables''])"

definition BatchOperationResult ::
  "pyval \<Rightarrow> bool \<Rightarrow> pyval \<Rightarrow> string option \<Rightarrow> int \<Rightarrow> int \<Rightarrow> pyval \<Rightarrow> pyval \<Rightarrow> pyval
     \<Rightarrow> fault + batch_operation_result"
where
  "BatchOperationResult name success data error execution_time index endpoint query variables =
     (if rejected_fields name endpoint query variables = [] then
        Inr \<lparr> r_name = the_str name, r_success = success, r_data = data, r_error = error,
              r_execution_time = execution_time, r_index = index, r_endpoint = the_str endpoint,
              r_query = the_optional_str query, r_variables = the_optional_dict variables \<rparr>
      else Inl (ValidationError ''BatchOperationResult''
                  (rejected_fields name endpoint query variables)))"

text \<open>
  The Gateway (\<open>GraphQLHttpClient.execute_query\<close>) is the external collaborator: it is
  given a request and either returns data and a list of errors (the metadata it also
  returns is not read by the engine) or raises. What the network answers is a parameter
  of the model, \<open>gateway\<close>, indexed by the position of the operation that makes the call.
  The client of the source turns its own transport faults into entries of the error list;
  a Gateway that raises is part of the model because the engine has a handler for it.
\<close>

record execution_error =
  err_message :: string
  err_category :: string

record gateway_request =
  gw_url :: string
  gw_query :: pyval
  gw_variables :: pyval
  gw_headers :: "(string \<times> string) list"
  gw_timeout :: int

datatype gateway_outcome =
    GatewayReturns pyval "execution_error list"
  | GatewayRaises string

text \<open>
  The environment of one batch: the answers of the network and the readings of the clock.
  \<open>op_started i\<close> and \<open>op_finished i\<close> are the \<open>start_time\<close> and the \<open>end_time\<close> that
  operation \<open>i\<close> reads (the \<open>end_time\<close> of the branch that builds its result),
  \<open>op_accessed i\<close> is the clock read by its \<open>record_endpoint_access\<close>,
  \<open>completion_order\<close> is the order in which the tasks of a parallel batch finish, and
  \<open>fault_time\<close> is the clock read by the default \<open>started_at\<close> of \<open>BatchSummary()\<close>.
\<close>

record env =
  gateway :: "nat \<Rightarrow> gateway_request \<Rightarrow> gateway_outcome"
  op_started :: "nat \<Rightarrow> time"
  op_finished :: "nat \<Rightarrow> time"
  op_accessed :: "nat \<Rightarrow> time"
  completion_order :: "nat list"
  batch_started :: time
  batch_completed :: time
  fault_time :: time

text \<open>
  The state a batch runs in: the registry, and the log of the calls made to the Gateway.
\<close>

record service =
  reg :: registry
  gateway_calls :: "(nat \<times> gateway_request) list"

text \<open>
  \<open>EndpointRegistryService.get_endpoint\<close>, as the engine calls it: with the value found
  under \<open>"endpoint"\<close>, whatever its type. \<open>dict.get\<close> raises \<open>TypeError\<close> for an unhashable
  key (the lock is released on the way out); a hashable key that is not a string equals
  no key of the dictionary.
\<close>

definition get_endpoint ::
  "pyval \<Rightarrow> registry \<Rightarrow> ((fault + endpoint_info option) \<times> registry) option"
where
  "get_endpoint endpoint_name s =
     (case acquire s of
        None \<Rightarrow> None
      | Some s1 \<Rightarrow>
          (case endpoint_name of
             PStr n \<Rightarrow> Some (Inr (map_of (endpoints s1) n), release s1)
           | PList xs \<Rightarrow> Some (Inl (TypeError (''unhashable type: '' @ [CHR 0x27] @ ''list'' @ [CHR 0x27])), release s1)
           | PDict d \<Rightarrow> Some (Inl (TypeError (''unhashable type: '' @ [CHR 0x27] @ ''dict'' @ [CHR 0x27])), release s1)
           | _ \<Rightarrow> Some (Inr None, release s1)))"

text \<open>
  The \<open>try\<close> block of \<open>_execute_single_operation\<close>. \<open>Inl\<close> is an exception raised in it.
  The f-string of the not-found branch is built for a value that \<open>get_endpoint\<close> has
  looked up, so for a hashable one; the branch for a value without a modelled text is
  never taken (\<open>looked_up_has_text\<close>).
\<close>

definition single_operation_try ::
  "env \<Rightarrow> operation \<Rightarrow> nat \<Rightarrow> int \<Rightarrow> service
     \<Rightarrow> ((fault + batch_operation_result) \<times> service) option"
where
  "single_operation_try e operation index timeout_seconds w =
     (let endpoint_name = op_endpoint operation;
          query = op_query operation;
          variables = op_variables operation;
          name = op_name operation index
      in case get_endpoint endpoint_name (reg w) of
           None \<Rightarrow> None
         | Some (Inl ex, g) \<Rightarrow> Some (Inl ex, w\<lparr>reg := g\<rparr>)
         | Some (Inr None, g) \<Rightarrow>
             (case py_format endpoint_name of
                None \<Rightarrow> Some (Inl (TypeError ''unhashable type''), w\<lparr>reg := g\<rparr>)
              | Some shown \<Rightarrow>
                  Some (BatchOperationResult name False PNone
                          (Some (''Endpoint not found: '' @ shown)) 0 (int index)
                          endpoint_name query variables,
                        w\<lparr>reg := g\<rparr>))
         | Some (Inr (Some endpoint_info), g) \<Rightarrow>
             let request = \<lparr> gw_url = ep_url endpoint_info, gw_query = query,
                              gw_variables = variables, gw_headers = ep_headers endpoint_info,
                              gw_timeout = timeout_seconds \<rparr>;
                 w1 = w\<lparr> reg := g, gateway_calls := gateway_calls w @ [(index, request)] \<rparr>
             in (case gateway e index request of
                   GatewayRaises msg \<Rightarrow> Some (Inl (GatewayFault msg), w1)
                 | GatewayReturns data errors \<Rightarrow>
                     let execution_time = op_finished e index - op_started e index
                     in (case record_endpoint_access (op_accessed e index) (the_str endpoint_name)
                                (length errors = 0) (reg w1) of
                           None \<Rightarrow> None
                         | Some (u, g2) \<Rightarrow>
                             Some (BatchOperationResult name (length errors = 0) data
                                     (if errors \<noteq> [] then Some (join ''; '' (map err_message errors))
                                      else None)
                                     execution_time (int index) endpoint_name query variables,
                                   w1\<lparr>reg := g2\<rparr>))))"

text \<open>
  \<open>_execute_single_operation\<close>: the \<open>try\<close> block and its \<open>except Exception\<close> handler, which
  builds the failed result from the same four values of the operation. An exception
  raised while building it leaves the function.
\<close>

definition execute_single_operation ::
  "env \<Rightarrow> operation \<Rightarrow> nat \<Rightarrow> int \<Rightarrow> service
     \<Rightarrow> ((fault + batch_operation_result) \<times> service) option"
where
  "execute_single_operation e operation index timeout_seconds w =
     (case single_operation_try e operation index timeout_seconds w of
        None \<Rightarrow> None
      | Some (Inr result, w') \<Rightarrow> Some (Inr result, w')
      | Some (Inl ex, w') \<Rightarrow>
          Some (BatchOperationResult
                  (op_name operation index)
                  False PNone (Some (fault_str ex))
                  (op_finished e index - op_started e index) (int index)
                  (op_endpoint operation)
                  (op_query operation)
                  (op_variables operation),
                w'))"

text \<open>
  The failed result that \<open>execute_batch_operations_async\<close> itself builds for an operation
  whose \<open>_execute_single_operation\<close> raised: name and endpoint from the operation, the
  other fields at their defaults.
\<close>

definition error_result :: "operation \<Rightarrow> nat \<Rightarrow> fault \<Rightarrow> fault + batch_operation_result" where
  "error_result operation i ex =
     BatchOperationResult (op_name operation i)
       False PNone (Some (fault_str ex)) 0 (int i)
       (op_endpoint operation) PNone PNone"

text \<open>
  The sequential loop, over \<open>enumerate(operations)\<close>. \<open>Inl\<close> is an exception that leaves
  the loop (raised inside its \<open>except\<close> handler).
\<close>

fun run_sequential ::
  "env \<Rightarrow> bool \<Rightarrow> int \<Rightarrow> (nat \<times> operation) list \<Rightarrow> batch_operation_result list \<Rightarrow> service
     \<Rightarrow> ((fault + batch_operation_result list) \<times> service) option"
where
  "run_sequential e continue_on_error timeout_seconds [] results w = Some (Inr results, w)"
| "run_sequential e continue_on_error timeout_seconds ((i, operation) # rest) results w =
     (case execute_single_operation e operation i timeout_seconds w of
        None \<Rightarrow> None
      | Some (Inr result, w1) \<Rightarrow>
          if \<not> r_success result \<and> \<not> continue_on_error then Some (Inr (results @ [result]), w1)
          else run_sequential e continue_on_error timeout_seconds rest (results @ [result]) w1
      | Some (Inl ex, w1) \<Rightarrow>
          (case error_result operation i ex of
             Inl ex' \<Rightarrow> Some (Inl ex', w1)
           | Inr failed \<Rightarrow>
               if \<not> continue_on_error then Some (Inr (results @ [failed]), w1)
               else run_sequential e continue_on_error timeout_seconds rest (results @ [failed]) w1))"

text \<open>
  Parallel mode. \<open>asyncio.gather(*tasks, return_exceptions=True)\<close> starts one task for
  each operation, waits until all of them have finished, and returns their outcomes (a
  result, or the exception the task raised) in the order of the tasks, whatever the
  order in which they finish. The tasks share the registry only. Each access of a task
  to it is one critical section under the lock; the lookup reads the endpoint
  dictionary, which no task writes, so the tasks take effect on the registry in the
  order in which they finish. That order is \<open>completion_order\<close> of the environment: any
  list of positions; a task it does not mention finishes after those it mentions, in
  input order. Each task is run as a whole at its turn. Every task reaches its call of
  the Gateway before the first task finishes (a task waits first at its HTTP request),
  so the calls of the batch are made in input order, and \<open>gather\<close> puts the entries the
  tasks added to the log in that order.
\<close>

definition schedule :: "nat \<Rightarrow> nat list \<Rightarrow> nat list" where
  "schedule n order =
     (let mentioned = remdups (filter (\<lambda>i. i < n) order)
      in mentioned @ filter (\<lambda>i. i \<notin> set mentioned) [0..<n])"

fun run_tasks ::
  "env \<Rightarrow> int \<Rightarrow> operation list \<Rightarrow> nat list \<Rightarrow> service
     \<Rightarrow> ((nat \<times> (fault + batch_operation_result)) list \<times> service) option"
where
  "run_tasks e timeout_seconds operations [] w = Some ([], w)"
| "run_tasks e timeout_seconds operations (i # rest) w =
     (case execute_single_operation e (operations ! i) i timeout_seconds w of
        None \<Rightarrow> None
      | Some (outcome, w1) \<Rightarrow>
          (case run_tasks e timeout_seconds operations rest w1 of
             None \<Rightarrow> None
           | Some (finished, w2) \<Rightarrow> Some ((i, outcome) # finished, w2)))"

text \<open>The outcomes of the finished tasks, listed by position.\<close>

definition gather ::
  "env \<Rightarrow> int \<Rightarrow> operation list \<Rightarrow> service
     \<Rightarrow> ((fault + batch_operation_result) list \<times> service) option"
where
  "gather e timeout_seconds operations w =
     (case run_tasks e timeout_seconds operations
             (schedule (length operations) (completion_order e)) w of
        None \<Rightarrow> None
      | Some (finished, w') \<Rightarrow>
          Some (List.map_filter (map_of finished) [0..<length operations],
                w'\<lparr>gateway_calls :=
                     gateway_calls w
                     @ sort_key fst (drop (length (gateway_calls w)) (gateway_calls w'))\<rparr>))"

text \<open>
  The loop that replaces each exception in the gathered list by a failed result; an
  exception raised while building one leaves the loop.
\<close>

fun convert_exceptions ::
  "((nat \<times> operation) \<times> (fault + batch_operation_result)) list
     \<Rightarrow> fault + batch_operation_result list"
where
  "convert_exceptions [] = Inr []"
| "convert_exceptions (((i, operation), Inr result) # rest) =
     (case convert_exceptions rest of Inl ex \<Rightarrow> Inl ex | Inr results \<Rightarrow> Inr (result # results))"
| "convert_exceptions (((i, operation), Inl ex) # rest) =
     (case error_result operation i ex of
        Inl ex' \<Rightarrow> Inl ex'
      | Inr failed \<Rightarrow>
          (case convert_exceptions rest of Inl ex'' \<Rightarrow> Inl ex'' | Inr results \<Rightarrow> Inr (failed # results)))"

definition run_parallel ::
  "env \<Rightarrow> int \<Rightarrow> operation list \<Rightarrow> service
     \<Rightarrow> ((fault + batch_operation_result list) \<times> service) option"
where
  "run_parallel e timeout_seconds operations w =
     (case gather e timeout_seconds operations w of
        None \<Rightarrow> None
      | Some (outcomes, w') \<Rightarrow> Some (convert_exceptions (zip (enumerate 0 operations) outcomes), w'))"

datatype ExecutionMode = SEQUENTIAL | PARALLEL

fun ExecutionMode_value :: "ExecutionMode \<Rightarrow> string" where
  "ExecutionMode_value SEQUENTIAL = ''sequential''"
| "ExecutionMode_value PARALLEL = ''parallel''"

definition ExecutionMode_members :: "ExecutionMode list" where
  "ExecutionMode_members = [SEQUENTIAL, PARALLEL]"

text \<open>
  \<open>ExecutionMode(execution_mode) if execution_mode in ExecutionMode.__members__.values()
  else ExecutionMode.SEQUENTIAL\<close>: a member of a \<open>str\<close> enumeration equals its value.
\<close>

definition resolve_mode :: "string \<Rightarrow> ExecutionMode" where
  "resolve_mode execution_mode =
     (case find (\<lambda>m. ExecutionMode_value m = execution_mode) ExecutionMode_members of
        Some m \<Rightarrow> m
      | None \<Rightarrow> SEQUENTIAL)"

text \<open>
  \<open>BatchSummary\<close> and \<open>BatchExecutionResponse\<close> (models/batch.py). The float field
  \<open>average_execution_time\<close>, which the engine never sets, and the always empty \<open>warnings\<close>
  and \<open>metadata\<close> are left out.
\<close>

record batch_summary =
  total_operations :: int
  successful_operations :: int
  failed_operations :: int
  total_execution_time :: int
  execution_mode :: ExecutionMode
  started_at :: time
  completed_at :: "time option"
  continue_on_error :: bool

record batch_execution_response =
  results :: "batch_operation_result list"
  summary :: batch_summary
  errors :: "string list"

text \<open>\<open>BatchSummary()\<close>: every field at its default.\<close>

definition BatchSummary_default :: "time \<Rightarrow> batch_summary" where
  "BatchSummary_default now =
     \<lparr> total_operations = 0, successful_operations = 0, failed_operations = 0,
       total_execution_time = 0, execution_mode = SEQUENTIAL, started_at = now,
       completed_at = None, continue_on_error = True \<rparr>"

text \<open>The body of the outer \<open>try\<close> of \<open>execute_batch_operations_async\<close>.\<close>

definition batch_try ::
  "env \<Rightarrow> operation list \<Rightarrow> string \<Rightarrow> bool \<Rightarrow> int \<Rightarrow> service
     \<Rightarrow> ((fault + batch_execution_response) \<times> service) option"
where
  "batch_try e operations mode_name coe timeout_seconds w =
     (let start_time = batch_started e;
          mode = resolve_mode mode_name
      in case (if mode = PARALLEL then run_parallel e timeout_seconds operations w
               else run_sequential e coe timeout_seconds (enumerate 0 operations) [] w) of
           None \<Rightarrow> None
         | Some (Inl ex, w') \<Rightarrow> Some (Inl ex, w')
         | Some (Inr rs, w') \<Rightarrow>
             let end_time = batch_completed e;
                 successful_ops = int (length (filter r_success rs));
                 failed_ops = int (length rs) - successful_ops
             in Some (Inr \<lparr> results = rs,
                            summary = \<lparr> total_operations = int (length operations),
                                        successful_operations = successful_ops,
                                        failed_operations = failed_ops,
                                        total_execution_time = end_time - start_time,
                                        execution_mode = mode,
                                        started_at = start_time,
                                        completed_at = Some end_time,
                                        continue_on_error = coe \<rparr>,
                            errors = [] \<rparr>,
                      w'))"

text \<open>
  \<open>execute_batch_operations_async\<close>: the outer \<open>try\<close> and its \<open>except Exception\<close> handler.
\<close>

definition execute_batch_operations_async ::
  "env \<Rightarrow> operation list \<Rightarrow> string \<Rightarrow> bool \<Rightarrow> int \<Rightarrow> service
     \<Rightarrow> (batch_execution_response \<times> service) option"
where
  "execute_batch_operations_async e operations mode_name coe timeout_seconds w =
     (case batch_try e operations mode_name coe timeout_seconds w of
        None \<Rightarrow> None
      | Some (Inr response, w') \<Rightarrow> Some (response, w')
      | Some (Inl ex, w') \<Rightarrow>
          Some (\<lparr> results = [], summary = BatchSummary_default (fault_time e),
                  errors = [fault_str ex] \<rparr>, w'))"

section \<open>Properties of registry states\<close>

text \<open>The statistics invariant: in every statistics block the accesses are the successes plus the errors.\<close>

definition stats_consistent :: "registry \<Rightarrow> bool" where
  "stats_consistent s \<longleftrightarrow>
     list_all (\<lambda>(e, st). access_count st = success_count st + error_count st) (endpoint_stats s)"

text \<open>
  What holds of the registry between two public calls: the lock is free, the statistics
  are consistent, and the statistics dictionary has the keys of the endpoint dictionary.
\<close>

definition registry_wf :: "registry \<Rightarrow> bool" where
  "registry_wf s \<longleftrightarrow>
     \<not> lock_held s \<and> stats_consistent s
     \<and> fst ` set (endpoint_stats s) = fst ` set (endpoints s)"

fun is_register_or_access :: "registry_call \<Rightarrow> bool" where
  "is_register_or_access (RegisterEndpoint t1 t2 info schema) = True"
| "is_register_or_access (RecordEndpointAccess now n ok) = True"
| "is_register_or_access c = False"

text \<open>The three counters of an endpoint: accesses, successes, errors.\<close>

definition counters :: "registry \<Rightarrow> string \<Rightarrow> (int \<times> int \<times> int) option" where
  "counters s endpoint_name =
     map_option (\<lambda>st. (access_count st, success_count st, error_count st))
       (map_of (endpoint_stats s) endpoint_name)"

section \<open>Concrete scenarios\<close>

definition endpoint_named :: "string \<Rightarrow> string \<Rightarrow> endpoint_info" where
  "endpoint_named n u =
     \<lparr> ep_name = n, ep_url = u, ep_headers = [], ep_allow_mutations = False,
       ep_tool_prefix = [], ep_schema_content = Some [] \<rparr>"

text \<open>
  A registry in use: endpoint \<open>api\<close> with a cached schema, one tool and two recorded
  accesses.
\<close>

definition used_registry :: registry where
  "used_registry =
     \<lparr> endpoints = [(''api'', endpoint_named ''api'' ''http://old'')],
       endpoint_schemas =
         [(''api'', \<lparr> sc_type_names = [''Query''], sc_last_modified = 1, sc_version = ''v1'' \<rparr>)],
       tool_to_endpoint = [(''t'', ''api'')],
       endpoint_to_tools = [(''api'', [''t''])],
       endpoint_stats =
         [(''api'', \<lparr> registered_at = 0, last_accessed = Some 5, access_count = 2,
                      tool_count = 1, schema_version = ''v1'', last_introspection = None,
                      error_count = 1, success_count = 1 \<rparr>)],
       last_updated = [(''api'', 0)],
       lock_held = False \<rparr>"

text \<open>
  A network that answers every request with data and no errors, except the request of the
  operation at position 1, which it answers with one GraphQL error; in a parallel batch
  the task at position 2 finishes first and the task at position 1 last.
\<close>

definition example_env :: env where
  "example_env =
     \<lparr> gateway = (\<lambda>i request.
                     if i = 1 then
                       GatewayReturns PNone [\<lparr> err_message = ''boom'', err_category = ''GraphQL'' \<rparr>]
                     else GatewayReturns (PDict [(''ok'', PBool True)]) []),
       op_started = (\<lambda>i. 10), op_finished = (\<lambda>i. 25), op_accessed = (\<lambda>i. 20 + int i),
       completion_order = [2, 0, 1],
       batch_started = 0, batch_completed = 100, fault_time = 100 \<rparr>"

definition example_service :: service where
  "example_service = \<lparr> reg = used_registry, gateway_calls = [] \<rparr>"

definition query_operation :: "string \<Rightarrow> operation" where
  "query_operation n = [(''name'', PStr n), (''endpoint'', PStr ''api''), (''query'', PStr ''{ a }'')]"

section \<open>Properties of operations and results\<close>

text \<open>
  The name and the endpoint of the operation are strings (or absent): the two values
  every failed result is built from.
\<close>

definition labels_accepted :: "operation \<Rightarrow> bool" where
  "labels_accepted operation \<longleftrightarrow>
     is_str (dict_get operation ''name'' (PStr [])) \<and> is_str (op_endpoint operation)"

text \<open>All four values have the types of the result's fields.\<close>

definition fields_accepted :: "operation \<Rightarrow> bool" where
  "fields_accepted operation \<longleftrightarrow>
     labels_accepted operation \<and> is_optional_str (op_query operation)
     \<and> is_optional_dict (op_variables operation)"

text \<open>
  When an operation succeeds, stated on the inputs: its endpoint is a registered name,
  the Gateway returns for its request with no errors, and its values fit the result.
  Every other operation fails: unknown endpoint, Gateway fault, Gateway errors, or a
  value the result model rejects.
\<close>

definition op_succeeds ::
  "env \<Rightarrow> (string \<times> endpoint_info) list \<Rightarrow> int \<Rightarrow> nat \<Rightarrow> operation \<Rightarrow> bool"
where
  "op_succeeds e registered timeout_seconds i operation =
     (case op_endpoint operation of
        PStr n \<Rightarrow>
          (case map_of registered n of
             None \<Rightarrow> False
           | Some info \<Rightarrow>
               (case gateway e i \<lparr> gw_url = ep_url info, gw_query = op_query operation,
                                    gw_variables = op_variables operation,
                                    gw_headers = ep_headers info,
                                    gw_timeout = timeout_seconds \<rparr> of
                  GatewayReturns data errs \<Rightarrow> errs = [] \<and> fields_accepted operation
                | GatewayRaises msg \<Rightarrow> False))
      | _ \<Rightarrow> False)"

text \<open>
  A result stands for operation \<open>i\<close>: it carries the operation's position, name and
  endpoint, it reports success exactly when the operation succeeds, and a failed result
  has an error message (\<open>error\<close> is not \<open>None\<close>).
\<close>

definition result_of ::
  "env \<Rightarrow> (string \<times> endpoint_info) list \<Rightarrow> int \<Rightarrow> nat \<Rightarrow> operation
     \<Rightarrow> batch_operation_result \<Rightarrow> bool"
where
  "result_of e registered timeout_seconds i operation r \<longleftrightarrow>
     r_index r = int i \<and> PStr (r_name r) = op_name operation i
     \<and> PStr (r_endpoint r) = op_endpoint operation
     \<and> r_success r = op_succeeds e registered timeout_seconds i operation
     \<and> (r_success r \<or> r_error r \<noteq> None)"

text \<open>
  What the engine makes of one operation: \<open>_execute_single_operation\<close>, and for an
  exception it raises the failed result of \<open>error_result\<close>. \<open>Inl\<close> is an exception that
  no handler turned into a result.
\<close>

definition attempt ::
  "env \<Rightarrow> operation \<Rightarrow> nat \<Rightarrow> int \<Rightarrow> service
     \<Rightarrow> ((fault + batch_operation_result) \<times> service) option"
where
  "attempt e operation i timeout_seconds w =
     (case execute_single_operation e operation i timeout_seconds w of
        None \<Rightarrow> None
      | Some (Inr r, w') \<Rightarrow> Some (Inr r, w')
      | Some (Inl ex, w') \<Rightarrow> Some (error_result operation i ex, w'))"

text \<open>
  What \<open>_execute_single_operation\<close> returns for an operation: a result when the four
  values fit the result's fields, and then one that stands for the operation; an
  exception otherwise, and then the operation does not succeed.
\<close>

definition stands_for ::
  "env \<Rightarrow> (string \<times> endpoint_info) list \<Rightarrow> int \<Rightarrow> nat \<Rightarrow> operation
     \<Rightarrow> (fault + batch_operation_result) \<Rightarrow> bool"
where
  "stands_for e registered t i operation out =
     (case out of
        Inr r \<Rightarrow> fields_accepted operation \<and> result_of e registered t i operation r
      | Inl ex \<Rightarrow> \<not> fields_accepted operation
                  \<and> \<not> op_succeeds e registered t i operation)"

text \<open>
  What the engine makes of an operation: a result that stands for it when its name and
  endpoint are strings, an exception otherwise.
\<close>

definition attempt_stands ::
  "env \<Rightarrow> (string \<times> endpoint_info) list \<Rightarrow> int \<Rightarrow> nat \<Rightarrow> operation
     \<Rightarrow> (fault + batch_operation_result) \<Rightarrow> bool"
where
  "attempt_stands e registered t i operation out =
     (case out of
        Inr r \<Rightarrow> labels_accepted operation \<and> result_of e registered t i operation r
      | Inl ex \<Rightarrow> \<not> labels_accepted operation)"

text \<open>
  What the sequential loop returns when it is entered with the results \<open>rs\<close> and the
  operations \<open>ops\<close>, numbered from \<open>n\<close>, still to run: an exception only when the name or
  endpoint of some operation is not a string; otherwise \<open>rs\<close> followed by the results of
  a prefix of \<open>ops\<close>, which is all of \<open>ops\<close> unless \<open>continue_on_error\<close> is off and the last
  result failed.
\<close>

definition sequential_outcome ::
  "env \<Rightarrow> (string \<times> endpoint_info) list \<Rightarrow> int \<Rightarrow> bool \<Rightarrow> nat \<Rightarrow> operation list
     \<Rightarrow> batch_operation_result list \<Rightarrow> (fault + batch_operation_result list) \<Rightarrow> bool"
where
  "sequential_outcome e registered t coe n ops rs out =
     (case out of
        Inl ex \<Rightarrow> \<not> list_all labels_accepted ops
      | Inr rs' \<Rightarrow>
          (\<exists>new. rs' = rs @ new
             \<and> list_all2 (\<lambda>p r. result_of e registered t (fst p) (snd p) r)
                  (take (length new) (enumerate n ops)) new
             \<and> (length new = length ops
                  \<or> (\<not> coe \<and> length new < length ops \<and> new \<noteq> [] \<and> \<not> r_success (last new)))))"

text \<open>What parallel mode returns: an exception, or one result for each operation.\<close>

definition parallel_outcome ::
  "env \<Rightarrow> (string \<times> endpoint_info) list \<Rightarrow> int \<Rightarrow> nat \<Rightarrow> operation list
     \<Rightarrow> (fault + batch_operation_result list) \<Rightarrow> bool"
where
  "parallel_outcome e registered t n ops out =
     (case out of
        Inl ex \<Rightarrow> \<not> list_all labels_accepted ops
      | Inr rs \<Rightarrow>
          list_all2 (\<lambda>p r. result_of e registered t (fst p) (snd p) r) (enumerate n ops) rs)"

text \<open>What a response says about the operations it was given.\<close>

definition response_stands ::
  "env \<Rightarrow> (string \<times> endpoint_info) list \<Rightarrow> int \<Rightarrow> operation list \<Rightarrow> string \<Rightarrow> bool
     \<Rightarrow> batch_execution_response \<Rightarrow> bool"
where
  "response_stands e registered t ops m coe resp \<longleftrightarrow>
     errors resp = []
     \<and> length (results resp) \<le> length ops
     \<and> (\<forall>i<length (results resp). result_of e registered t i (ops ! i) (results resp ! i))
     \<and> (length (results resp) = length ops
          \<or> (resolve_mode m = SEQUENTIAL \<and> \<not> coe \<and> results resp \<noteq> []
               \<and> \<not> r_success (last (results resp))))
     \<and> summary resp =
          \<lparr> total_operations = int (length ops),
            successful_operations = int (length (filter r_success (results resp))),
            failed_operations =
              int (length (results resp)) - int (length (filter r_success (results resp))),
            total_execution_time = batch_completed e - batch_started e,
            execution_mode = resolve_mode m,
            started_at = batch_started e,
            completed_at = Some (batch_completed e),
            continue_on_error = coe \<rparr>"

section \<open>The registry: lemmas\<close>

lemma list_all_update:
  "list_all P al \<Longrightarrow> P (k, v) \<Longrightarrow> list_all P (AList.update k v al)"
  by (induction al) auto

lemma list_all_delete: "list_all P al \<Longrightarrow> list_all P (AList.delete k al)"
  by (simp add: AList.delete_eq list_all_iff)

lemma list_all_map_of: "list_all P al \<Longrightarrow> map_of al k = Some v \<Longrightarrow> P (k, v)"
  by (auto simp: list_all_iff dest: map_of_SomeD)

lemma update_keys_present:
  "map_of al k = Some v \<Longrightarrow> fst ` set (AList.update k w al) = fst ` set al"
  by (auto simp: AList.dom_update dest!: map_of_SomeD intro: rev_image_eqI)

lemma delete_keys_set: "fst ` set (AList.delete k al) = fst ` set al - {k}"
  by (auto simp: AList.delete_eq)

lemma wf_register_endpoint:
  assumes "registry_wf s"
  shows "\<exists>s'. register_endpoint t1 t2 info schema s = Some (True, s') \<and> registry_wf s'"
  using assms
  by (auto simp: registry_wf_def stats_consistent_def register_endpoint_def acquire_def
      release_def Let_def fresh_stats_def AList.dom_update intro!: list_all_update
      split: option.splits)

lemma wf_record_endpoint_access:
  assumes "registry_wf s"
  shows "\<exists>s'. record_endpoint_access now n ok s = Some ((), s') \<and> registry_wf s'"
  using assms
  by (auto simp: registry_wf_def stats_consistent_def record_endpoint_access_def acquire_def
      release_def Let_def update_keys_present intro!: list_all_update dest: list_all_map_of
      split: option.splits)

lemma wf_update_endpoint_schema:
  assumes "registry_wf s"
  shows "\<exists>b s'. update_endpoint_schema t1 t2 n sc s = Some (b, s') \<and> registry_wf s'"
  using assms
  by (auto simp: registry_wf_def stats_consistent_def update_endpoint_schema_def acquire_def
      release_def Let_def update_keys_present intro!: list_all_update dest: list_all_map_of
      split: option.splits)

lemma wf_register_tool:
  assumes "registry_wf s"
  shows "\<exists>b s'. register_tool t n s = Some (b, s') \<and> registry_wf s'"
  using assms
  by (auto simp: registry_wf_def stats_consistent_def register_tool_def acquire_def
      release_def Let_def update_keys_present intro!: list_all_update dest: list_all_map_of
      split: option.splits)

lemma remove_tool_keeps:
  assumes "stats_consistent s"
  shows "stats_consistent (snd (remove_tool t s)) \<and>
         fst ` set (endpoint_stats (snd (remove_tool t s))) = fst ` set (endpoint_stats s) \<and>
         endpoints (snd (remove_tool t s)) = endpoints s \<and>
         lock_held (snd (remove_tool t s)) = lock_held s"
  using assms
  by (auto simp: stats_consistent_def remove_tool_def Let_def update_keys_present
      intro!: list_all_update dest: list_all_map_of split: option.splits)

lemma remove_tools_keeps:
  "stats_consistent s \<Longrightarrow>
     stats_consistent (remove_tools ts s) \<and>
     fst ` set (endpoint_stats (remove_tools ts s)) = fst ` set (endpoint_stats s) \<and>
     endpoints (remove_tools ts s) = endpoints s \<and>
     lock_held (remove_tools ts s) = lock_held s"
proof (induction ts arbitrary: s)
  case Nil
  then show ?case by simp
next
  case (Cons t ts)
  from remove_tool_keeps [OF Cons.prems, of t] Cons.IH [of "snd (remove_tool t s)"]
  show ?case by simp
qed

lemma wf_unregister_endpoint:
  assumes "registry_wf s"
  shows "\<exists>b s'. unregister_endpoint n s = Some (b, s') \<and> registry_wf s'"
proof (cases "map_of (endpoints s) n = None")
  case True
  with assms show ?thesis
    by (auto simp add: registry_wf_def unregister_endpoint_def acquire_def release_def
        stats_consistent_def)
next
  case False
  let ?s1 = "s\<lparr>lock_held := True\<rparr>"
  let ?s2 = "remove_tools (tools_of ?s1 n) ?s1"
  let ?s3 = "?s2\<lparr> endpoints := AList.delete n (endpoints ?s2),
                  endpoint_schemas := AList.delete n (endpoint_schemas ?s2),
                  endpoint_stats := AList.delete n (endpoint_stats ?s2),
                  last_updated := AList.delete n (last_updated ?s2),
                  endpoint_to_tools := AList.delete n (endpoint_to_tools ?s2) \<rparr>"
  have c: "stats_consistent ?s1"
    using assms by (simp add: registry_wf_def stats_consistent_def)
  from remove_tools_keeps [OF c, of "tools_of ?s1 n"]
  have k: "stats_consistent ?s2" "fst ` set (endpoint_stats ?s2) = fst ` set (endpoint_stats s)"
    "endpoints ?s2 = endpoints s"
    by simp_all
  have u: "unregister_endpoint n s = Some (True, release ?s3)"
    using assms False by (simp add: registry_wf_def unregister_endpoint_def acquire_def Let_def)
  have "registry_wf (release ?s3)"
    using k assms
    by (simp add: registry_wf_def release_def stats_consistent_def delete_keys_set list_all_delete)
  with u show ?thesis by blast
qed

text \<open>
  Inside \<open>cleanup_stale_endpoints\<close> the lock is held, so the first
  \<open>unregister_endpoint\<close> it awaits never gets it.
\<close>

lemma unregister_each_locked:
  "lock_held s \<Longrightarrow> unregister_each ns s = (if ns = [] then Some s else None)"
  by (cases ns) (simp_all add: unregister_endpoint_def acquire_def)

lemma cleanup_stale_endpoints_returns:
  "cleanup_stale_endpoints now age s =
     (if lock_held s \<or> stale_endpoints now age s \<noteq> [] then None else Some (0, s))"
  by (auto simp add: cleanup_stale_endpoints_def acquire_def release_def Let_def
      unregister_each_locked stale_endpoints_def)

lemma wf_call: "registry_wf s \<Longrightarrow> call c s = Some s' \<Longrightarrow> registry_wf s'"
proof (cases c)
  case (RegisterEndpoint t1 t2 info schema)
  assume "registry_wf s" "call c s = Some s'"
  with wf_register_endpoint [of s t1 t2 info schema] RegisterEndpoint show ?thesis by auto
next
  case (UnregisterEndpoint n)
  assume "registry_wf s" "call c s = Some s'"
  with wf_unregister_endpoint [of s n] UnregisterEndpoint show ?thesis by auto
next
  case (UpdateEndpointSchema t1 t2 n sc)
  assume "registry_wf s" "call c s = Some s'"
  with wf_update_endpoint_schema [of s t1 t2 n sc] UpdateEndpointSchema show ?thesis by auto
next
  case (RegisterTool t n)
  assume "registry_wf s" "call c s = Some s'"
  with wf_register_tool [of s t n] RegisterTool show ?thesis by auto
next
  case (RecordEndpointAccess now n ok)
  assume "registry_wf s" "call c s = Some s'"
  with wf_record_endpoint_access [of s now n ok] RecordEndpointAccess show ?thesis by auto
next
  case (CleanupStaleEndpoints now age)
  assume "registry_wf s" "call c s = Some s'"
  with CleanupStaleEndpoints show ?thesis
    by (auto simp: cleanup_stale_endpoints_returns split: if_splits)
qed

lemma wf_calls: "registry_wf s \<Longrightarrow> calls cs s = Some s' \<Longrightarrow> registry_wf s'"
  by (induction cs arbitrary: s) (auto split: option.splits dest: wf_call)

lemma wf_new_registry: "registry_wf new_registry"
  by (simp add: registry_wf_def stats_consistent_def new_registry_def)

lemma call_total:
  "registry_wf s \<Longrightarrow> is_register_or_access c \<Longrightarrow> \<exists>s'. call c s = Some s' \<and> registry_wf s'"
proof (cases c)
  case (RegisterEndpoint t1 t2 info schema)
  assume "registry_wf s"
  from wf_register_endpoint [OF this, of t1 t2 info schema] RegisterEndpoint
  show ?thesis by auto
next
  case (RecordEndpointAccess now n ok)
  assume "registry_wf s"
  from wf_record_endpoint_access [OF this, of now n ok] RecordEndpointAccess
  show ?thesis by auto
qed simp_all

lemma calls_total:
  "registry_wf s \<Longrightarrow> \<forall>c \<in> set cs. is_register_or_access c
     \<Longrightarrow> \<exists>s'. calls cs s = Some s' \<and> registry_wf s'"
proof (induction cs arbitrary: s)
  case Nil
  then show ?case by simp
next
  case (Cons c cs)
  from Cons.prems call_total [of s c] obtain s1 where s1: "call c s = Some s1" "registry_wf s1"
    by auto
  with Cons.IH [of s1] Cons.prems show ?case by auto
qed

lemma register_endpoint_zero_counters:
  "\<not> lock_held s \<Longrightarrow>
     \<exists>s'. register_endpoint t1 t2 info schema s = Some (True, s')
          \<and> counters s' (ep_name info) = Some (0, 0, 0)"
  by (simp add: register_endpoint_def acquire_def release_def Let_def fresh_stats_def
      counters_def AList.update_conv' split: option.splits)

lemma record_endpoint_access_known:
  assumes "\<not> lock_held s" and "counters s n = Some (a, su, er)"
  shows "\<exists>s'. record_endpoint_access now n ok s = Some ((), s')
          \<and> counters s' n = Some (a + 1, if ok then su + 1 else su, if ok then er else er + 1)
          \<and> (\<forall>m. m \<noteq> n \<longrightarrow> counters s' m = counters s m)"
  using assms
  by (auto simp: record_endpoint_access_def acquire_def release_def Let_def counters_def
      AList.update_conv')

lemma record_endpoint_access_unknown:
  assumes "registry_wf s" and "map_of (endpoints s) n = None"
  shows "record_endpoint_access now n ok s = Some ((), s)"
proof -
  from assms have "n \<notin> fst ` set (endpoint_stats s)"
    by (simp add: registry_wf_def map_of_eq_None_iff)
  then have "map_of (endpoint_stats s) n = None"
    by (simp add: map_of_eq_None_iff)
  with assms show ?thesis
    by (simp add: record_endpoint_access_def acquire_def release_def registry_wf_def)
qed

section \<open>The registry: claims\<close>

text \<open>
  C1 (tool and endpoint index consistency). The claim: in every reachable registry state,
  tool \<open>t\<close> is in the tool set of endpoint \<open>e\<close> if and only if the tool-to-endpoint map sends
  \<open>t\<close> to \<open>e\<close>, also after a \<open>register_tool\<close> that gives an already registered tool name to a
  different endpoint. The code at that input: after registering endpoints \<open>A\<close> and \<open>B\<close>,
  \<open>register_tool t A\<close> and then \<open>register_tool t B\<close>, the tool set of \<open>A\<close> still holds \<open>t\<close>
  while the map sends \<open>t\<close> to \<open>B\<close>: \<open>register_tool\<close> overwrites the map entry and adds to the
  new endpoint's set, and does not take the tool out of the old endpoint's set.
\<close>

theorem register_tool_reassociation_breaks_index:
  "map_option (\<lambda>s. (tools_of s ''A'', tools_of s ''B'', map_of (tool_to_endpoint s) ''t''))
     (calls [RegisterEndpoint 0 0 (endpoint_named ''A'' ''http://a'') None,
             RegisterEndpoint 0 0 (endpoint_named ''B'' ''http://b'') None,
             RegisterTool ''t'' ''A'',
             RegisterTool ''t'' ''B''] new_registry)
   = Some ([''t''], [''t''], Some ''B'')"
  by (simp add: register_endpoint_def register_tool_def acquire_def release_def new_registry_def
      endpoint_named_def tools_of_def set_add_def fresh_stats_def Let_def)

text \<open>
  C4 (statistics invariant). For every sequence of \<open>register_endpoint\<close> and
  \<open>record_endpoint_access\<close> calls on a new registry, every call returns, and after every
  call (after every prefix of the sequence) \<open>access_count = success_count + error_count\<close>
  holds in every statistics block. In each of these states: \<open>register_endpoint\<close> sets the
  three counters of its endpoint to zero; \<open>record_endpoint_access\<close> on an endpoint with
  counters adds one to \<open>access_count\<close> and to exactly one of \<open>success_count\<close> and
  \<open>error_count\<close>, and leaves the other endpoints' counters alone; on an endpoint that is
  not registered it changes nothing.
\<close>

theorem stats_invariant:
  assumes "\<forall>c \<in> set cs. is_register_or_access c"
  shows "\<forall>n \<le> length cs. \<exists>s. calls (take n cs) new_registry = Some s
           \<and> stats_consistent s
           \<and> (\<forall>t1 t2 info schema. \<exists>s'. register_endpoint t1 t2 info schema s = Some (True, s')
                  \<and> counters s' (ep_name info) = Some (0, 0, 0))
           \<and> (\<forall>now e ok a su er. counters s e = Some (a, su, er) \<longrightarrow>
                 (\<exists>s'. record_endpoint_access now e ok s = Some ((), s')
                    \<and> counters s' e = Some (a + 1, if ok then su + 1 else su, if ok then er else er + 1)
                    \<and> (\<forall>m. m \<noteq> e \<longrightarrow> counters s' m = counters s m)))
           \<and> (\<forall>now e ok. map_of (endpoints s) e = None \<longrightarrow>
                 record_endpoint_access now e ok s = Some ((), s))"
proof (intro allI impI)
  fix n
  assume "n \<le> length cs"
  from assms have "\<forall>c \<in> set (take n cs). is_register_or_access c"
    by (meson in_set_takeD)
  from calls_total [OF wf_new_registry this]
  obtain s where s: "calls (take n cs) new_registry = Some s" "registry_wf s"
    by blast
  then have free: "\<not> lock_held s" and cons: "stats_consistent s"
    by (simp_all add: registry_wf_def)
  have reg: "\<forall>t1 t2 info schema. \<exists>s'. register_endpoint t1 t2 info schema s = Some (True, s')
                  \<and> counters s' (ep_name info) = Some (0, 0, 0)"
    using register_endpoint_zero_counters [OF free] by blast
  have acc: "\<forall>now e ok a su er. counters s e = Some (a, su, er) \<longrightarrow>
                 (\<exists>s'. record_endpoint_access now e ok s = Some ((), s')
                    \<and> counters s' e = Some (a + 1, if ok then su + 1 else su, if ok then er else er + 1)
                    \<and> (\<forall>m. m \<noteq> e \<longrightarrow> counters s' m = counters s m))"
    using record_endpoint_access_known [OF free] by blast
  have unk: "\<forall>now e ok. map_of (endpoints s) e = None \<longrightarrow>
                 record_endpoint_access now e ok s = Some ((), s)"
    using record_endpoint_access_unknown [OF s(2)] by blast
  from s(1) cons reg acc unk
  show "\<exists>s. calls (take n cs) new_registry = Some s
           \<and> stats_consistent s
           \<and> (\<forall>t1 t2 info schema. \<exists>s'. register_endpoint t1 t2 info schema s = Some (True, s')
                  \<and> counters s' (ep_name info) = Some (0, 0, 0))
           \<and> (\<forall>now e ok a su er. counters s e = Some (a, su, er) \<longrightarrow>
                 (\<exists>s'. record_endpoint_access now e ok s = Some ((), s')
                    \<and> counters s' e = Some (a + 1, if ok then su + 1 else su, if ok then er else er + 1)
                    \<and> (\<forall>m. m \<noteq> e \<longrightarrow> counters s' m = counters s m)))
           \<and> (\<forall>now e ok. map_of (endpoints s) e = None \<longrightarrow>
                 record_endpoint_access now e ok s = Some ((), s))"
    by blast
qed

theorem stats_invariant_witness:
  "list_all is_register_or_access
      [RegisterEndpoint 0 0 (endpoint_named ''api'' ''http://a'') None,
       RecordEndpointAccess 5 ''api'' True,
       RecordEndpointAccess 6 ''api'' False,
       RecordEndpointAccess 7 ''ghost'' True]
   \<and> (\<exists>s. calls [RegisterEndpoint 0 0 (endpoint_named ''api'' ''http://a'') None,
                  RecordEndpointAccess 5 ''api'' True,
                  RecordEndpointAccess 6 ''api'' False,
                  RecordEndpointAccess 7 ''ghost'' True] new_registry = Some s
          \<and> stats_consistent s \<and> counters s ''api'' = Some (2, 1, 1))"
proof -
  let ?cs = "[RegisterEndpoint 0 0 (endpoint_named ''api'' ''http://a'') None,
              RecordEndpointAccess 5 ''api'' True,
              RecordEndpointAccess 6 ''api'' False,
              RecordEndpointAccess 7 ''ghost'' True]"
  have h: "\<forall>c \<in> set ?cs. is_register_or_access c" by simp
  have l: "(4::nat) \<le> length ?cs" by simp
  have t: "take 4 ?cs = ?cs" by simp
  from stats_invariant [OF h, rule_format, OF l]
  obtain s where s: "calls ?cs new_registry = Some s" "stats_consistent s"
    unfolding t by blast
  have "map_option (\<lambda>s. counters s ''api'') (calls ?cs new_registry) = Some (Some (2, 1, 1))"
    by (simp add: register_endpoint_def record_endpoint_access_def acquire_def release_def
        new_registry_def endpoint_named_def fresh_stats_def counters_def Let_def)
  with s(1) have "counters s ''api'' = Some (2, 1, 1)"
    by simp
  with s show ?thesis by simp
qed

text \<open>
  C5 (staleness sweep). The claim: for an endpoint registered at \<open>T0\<close> and never accessed,
  \<open>cleanup_stale_endpoints\<close> called at \<open>T0 + 2h\<close> with \<open>max_age = 1h\<close> removes the endpoint
  and returns 1. The code at that input: the registration returns, and the sweep does
  not return. It finds the endpoint stale and, still holding the registry lock, awaits
  \<open>unregister_endpoint\<close>, which waits for the same lock.
\<close>

theorem cleanup_stale_endpoints_never_returns:
  "calls [RegisterEndpoint 0 0 (endpoint_named ''api'' ''http://a'') None] new_registry \<noteq> None
   \<and> calls [RegisterEndpoint 0 0 (endpoint_named ''api'' ''http://a'') None,
            CleanupStaleEndpoints 7200000000 1] new_registry = None"
  by (simp add: register_endpoint_def cleanup_stale_endpoints_returns stale_endpoints_def
      is_stale_def acquire_def release_def new_registry_def endpoint_named_def fresh_stats_def
      Let_def)

text \<open>
  C9 (registering a name again). \<open>register_endpoint\<close> for a name that is already
  registered returns \<open>True\<close>; afterwards the name maps to the new \<open>EndpointInfo\<close> and the
  endpoint dictionary has the same keys as before; the statistics block of the name is
  the fresh one (all counters and \<open>tool_count\<close> zero, \<open>schema_version\<close> the version of
  the given schema, or the empty string when none is given), whatever the old block
  held, while the tool associations stay as they were; and when no schema is given the
  schema cache is unchanged, so \<open>get_endpoint_schema\<close> returns what was cached before.
\<close>

theorem register_endpoint_again:
  assumes "\<not> lock_held s" and "map_of (endpoints s) (ep_name info) = Some old"
  shows "\<exists>s'. register_endpoint t1 t2 info schema s = Some (True, s')
     \<and> map_of (endpoints s') (ep_name info) = Some info
     \<and> map fst (endpoints s') = map fst (endpoints s)
     \<and> tool_to_endpoint s' = tool_to_endpoint s
     \<and> endpoint_to_tools s' = endpoint_to_tools s
     \<and> map_of (endpoint_stats s') (ep_name info) =
          Some \<lparr> registered_at = t1, last_accessed = None, access_count = 0, tool_count = 0,
                 schema_version = (case schema of Some sc \<Rightarrow> sc_version sc | None \<Rightarrow> []),
                 last_introspection = None, error_count = 0, success_count = 0 \<rparr>
     \<and> (schema = None \<longrightarrow>
          endpoint_schemas s' = endpoint_schemas s
          \<and> get_endpoint_schema (ep_name info) s'
              = Some (map_of (endpoint_schemas s) (ep_name info), s'))"
proof -
  from assms(2) have "ep_name info \<in> fst ` set (endpoints s)"
    by (metis fst_conv image_eqI map_of_SomeD)
  then have keys: "map fst (AList.update (ep_name info) info (endpoints s)) = map fst (endpoints s)"
    by (simp add: AList.update_keys)
  from assms(1) keys show ?thesis
    by (simp add: register_endpoint_def acquire_def release_def Let_def fresh_stats_def
        AList.update_conv' get_endpoint_schema_def split: option.splits)
qed

theorem register_endpoint_again_witness:
  "\<not> lock_held used_registry
   \<and> map_of (endpoints used_registry) (ep_name (endpoint_named ''api'' ''http://new''))
       = Some (endpoint_named ''api'' ''http://old'')
   \<and> (\<exists>s'. register_endpoint 9 9 (endpoint_named ''api'' ''http://new'') None used_registry
              = Some (True, s')
          \<and> map_of (endpoints s') ''api'' = Some (endpoint_named ''api'' ''http://new'')
          \<and> counters s' ''api'' = Some (0, 0, 0)
          \<and> map_option fst (get_endpoint_schema ''api'' s')
              = Some (Some \<lparr> sc_type_names = [''Query''], sc_last_modified = 1, sc_version = ''v1'' \<rparr>))"
proof -
  have h1: "\<not> lock_held used_registry"
    by (simp add: used_registry_def)
  have h2: "map_of (endpoints used_registry) (ep_name (endpoint_named ''api'' ''http://new''))
       = Some (endpoint_named ''api'' ''http://old'')"
    by (simp add: used_registry_def endpoint_named_def)
  from register_endpoint_again [OF h1 h2, of 9 9 None]
  obtain s' where s': "register_endpoint 9 9 (endpoint_named ''api'' ''http://new'') None used_registry
              = Some (True, s')"
     "map_of (endpoints s') (ep_name (endpoint_named ''api'' ''http://new''))
        = Some (endpoint_named ''api'' ''http://new'')"
     "map_of (endpoint_stats s') (ep_name (endpoint_named ''api'' ''http://new'')) =
          Some \<lparr> registered_at = 9, last_accessed = None, access_count = 0, tool_count = 0,
                 schema_version = [], last_introspection = None, error_count = 0,
                 success_count = 0 \<rparr>"
     "get_endpoint_schema (ep_name (endpoint_named ''api'' ''http://new'')) s'
        = Some (map_of (endpoint_schemas used_registry)
                  (ep_name (endpoint_named ''api'' ''http://new'')), s')"
    by auto
  have n: "ep_name (endpoint_named ''api'' ''http://new'') = ''api''"
    by (simp add: endpoint_named_def)
  from s'(3) have c: "counters s' ''api'' = Some (0, 0, 0)"
    by (simp add: counters_def n)
  from s'(4) have g: "map_option fst (get_endpoint_schema ''api'' s')
      = Some (Some \<lparr> sc_type_names = [''Query''], sc_last_modified = 1, sc_version = ''v1'' \<rparr>)"
    by (simp add: n used_registry_def)
  from h1 h2 s'(1) s'(2) c g show ?thesis
    unfolding n by blast
qed

section \<open>The batch engine: lemmas and claims\<close>

lemma name_is_str: "is_str (op_name operation i) = is_str (dict_get operation ''name'' (PStr []))"
  by (simp add: op_name_def dict_get_def is_str_def split: option.splits)

lemma rejected_fields_Nil:
  "rejected_fields (op_name operation i) (op_endpoint operation) (op_query operation)
      (op_variables operation) = [] \<longleftrightarrow> fields_accepted operation"
  by (simp add: rejected_fields_def fields_accepted_def labels_accepted_def name_is_str)

lemma rejected_fields_labels:
  "rejected_fields (op_name operation i) (op_endpoint operation) PNone PNone = []
     \<longleftrightarrow> labels_accepted operation"
  by (simp add: rejected_fields_def labels_accepted_def name_is_str is_optional_str_def
      is_optional_dict_def)

lemma is_str_the_str: "is_str v \<Longrightarrow> PStr (the_str v) = v"
  by (cases v) (simp_all add: is_str_def the_str_def)

lemma BatchOperationResult_fields:
  "BatchOperationResult (op_name operation i) ok data err t ix (op_endpoint operation)
      (op_query operation) (op_variables operation) =
   (if fields_accepted operation then
      Inr \<lparr> r_name = the_str (op_name operation i), r_success = ok, r_data = data, r_error = err,
            r_execution_time = t, r_index = ix, r_endpoint = the_str (op_endpoint operation),
            r_query = the_optional_str (op_query operation),
            r_variables = the_optional_dict (op_variables operation) \<rparr>
    else Inl (ValidationError ''BatchOperationResult''
                (rejected_fields (op_name operation i) (op_endpoint operation)
                   (op_query operation) (op_variables operation))))"
  by (simp add: BatchOperationResult_def rejected_fields_Nil)

lemma error_result_labels:
  "error_result operation i ex =
   (if labels_accepted operation then
      Inr \<lparr> r_name = the_str (op_name operation i), r_success = False, r_data = PNone,
            r_error = Some (fault_str ex), r_execution_time = 0, r_index = int i,
            r_endpoint = the_str (op_endpoint operation), r_query = None, r_variables = None \<rparr>
    else Inl (ValidationError ''BatchOperationResult''
                (rejected_fields (op_name operation i) (op_endpoint operation) PNone PNone)))"
  by (simp add: error_result_def BatchOperationResult_def rejected_fields_labels
      the_optional_str_def the_optional_dict_def)

lemma release_acquired: "\<not> lock_held g \<Longrightarrow> release (g\<lparr>lock_held := True\<rparr>) = g"
  by (simp add: release_def)

lemma get_endpoint_free:
  "\<not> lock_held g \<Longrightarrow>
     get_endpoint v g =
       Some (case v of PStr n \<Rightarrow> Inr (map_of (endpoints g) n)
             | PList xs \<Rightarrow> Inl (TypeError (''unhashable type: '' @ [CHR 0x27] @ ''list'' @ [CHR 0x27]))
             | PDict d \<Rightarrow> Inl (TypeError (''unhashable type: '' @ [CHR 0x27] @ ''dict'' @ [CHR 0x27]))
             | _ \<Rightarrow> Inr None, g)"
  by (cases v) (simp_all add: get_endpoint_def acquire_def release_acquired)

lemma looked_up_has_text:
  "get_endpoint v g = Some (Inr found, g') \<Longrightarrow> py_format v \<noteq> None"
  by (cases v) (auto simp: get_endpoint_def acquire_def split: if_splits)

lemma record_endpoint_access_free:
  "\<not> lock_held g \<Longrightarrow>
     \<exists>g'. record_endpoint_access now n ok g = Some ((), g') \<and> \<not> lock_held g'
          \<and> endpoints g' = endpoints g"
  by (simp add: record_endpoint_access_def acquire_def release_def Let_def split: option.splits)

lemma fields_accepted_str:
  "fields_accepted operation \<Longrightarrow>
     PStr (the_str (op_name operation i)) = op_name operation i
     \<and> PStr (the_str (op_endpoint operation)) = op_endpoint operation"
  by (simp add: fields_accepted_def labels_accepted_def is_str_the_str name_is_str)

lemma labels_accepted_str:
  "labels_accepted operation \<Longrightarrow>
     PStr (the_str (op_name operation i)) = op_name operation i
     \<and> PStr (the_str (op_endpoint operation)) = op_endpoint operation"
  by (simp add: labels_accepted_def is_str_the_str name_is_str)

text \<open>The ways through the \<open>try\<close> block of \<open>_execute_single_operation\<close>.\<close>

lemma try_not_str:
  assumes "\<not> lock_held (reg w)" and "\<not> is_str (op_endpoint operation)"
  shows "\<exists>ex. single_operation_try e operation i t w = Some (Inl ex, w)"
  using assms
  by (cases "op_endpoint operation")
     (simp_all add: single_operation_try_def get_endpoint_free Let_def is_str_def
        BatchOperationResult_def rejected_fields_def)

lemma try_not_found:
  assumes "\<not> lock_held (reg w)" and "op_endpoint operation = PStr n"
    and "map_of (endpoints (reg w)) n = None"
  shows "single_operation_try e operation i t w =
           Some (BatchOperationResult (op_name operation i) False PNone
                   (Some (''Endpoint not found: '' @ n)) 0 (int i) (op_endpoint operation)
                   (op_query operation) (op_variables operation), w)"
  using assms
  by (simp add: single_operation_try_def get_endpoint_free Let_def)

lemma try_gateway_raises:
  assumes "\<not> lock_held (reg w)" and "op_endpoint operation = PStr n"
    and "map_of (endpoints (reg w)) n = Some info"
    and "gateway e i \<lparr> gw_url = ep_url info, gw_query = op_query operation,
                        gw_variables = op_variables operation, gw_headers = ep_headers info,
                        gw_timeout = t \<rparr> = GatewayRaises msg"
  shows "\<exists>w'. single_operation_try e operation i t w = Some (Inl (GatewayFault msg), w')
           \<and> reg w' = reg w"
  using assms
  by (simp add: single_operation_try_def get_endpoint_free Let_def)

lemma try_gateway_returns:
  assumes "\<not> lock_held (reg w)" and "op_endpoint operation = PStr n"
    and "map_of (endpoints (reg w)) n = Some info"
    and "gateway e i \<lparr> gw_url = ep_url info, gw_query = op_query operation,
                        gw_variables = op_variables operation, gw_headers = ep_headers info,
                        gw_timeout = t \<rparr> = GatewayReturns data errs"
  shows "\<exists>w'. single_operation_try e operation i t w =
           Some (BatchOperationResult (op_name operation i) (errs = []) data
                   (if errs \<noteq> [] then Some (join ''; '' (map err_message errs)) else None)
                   (op_finished e i - op_started e i) (int i) (op_endpoint operation)
                   (op_query operation) (op_variables operation), w')
           \<and> \<not> lock_held (reg w') \<and> endpoints (reg w') = endpoints (reg w)"
proof -
  from record_endpoint_access_free [OF assms(1), of "op_accessed e i" n "errs = []"]
  obtain g' where g': "record_endpoint_access (op_accessed e i) n (errs = []) (reg w) = Some ((), g')"
    "\<not> lock_held g'" "endpoints g' = endpoints (reg w)"
    by blast
  with assms show ?thesis
    by (simp add: single_operation_try_def get_endpoint_free Let_def the_str_def)
qed

lemma op_succeeds_not_str:
  "\<not> is_str (op_endpoint operation) \<Longrightarrow> \<not> op_succeeds e registered t i operation"
  by (cases "op_endpoint operation") (simp_all add: op_succeeds_def is_str_def)

lemma op_succeeds_accepted:
  "op_succeeds e registered t i operation \<Longrightarrow> fields_accepted operation"
  by (auto simp: op_succeeds_def split: pyval.splits option.splits gateway_outcome.splits)

lemma handler_result:
  "BatchOperationResult (op_name operation i) False PNone (Some msg) t (int i)
      (op_endpoint operation) (op_query operation) (op_variables operation) = out
   \<Longrightarrow> \<not> op_succeeds e registered ts i operation
   \<Longrightarrow> stands_for e registered ts i operation out"
  by (auto simp: BatchOperationResult_fields stands_for_def result_of_def fields_accepted_str)

lemma execute_single_operation_stands:
  assumes free: "\<not> lock_held (reg w)"
  shows "\<exists>out w'. execute_single_operation e operation i t w = Some (out, w')
           \<and> \<not> lock_held (reg w') \<and> endpoints (reg w') = endpoints (reg w)
           \<and> stands_for e (endpoints (reg w)) t i operation out"
proof (cases "is_str (op_endpoint operation)")
  case False
  then have na: "\<not> fields_accepted operation"
    by (simp add: fields_accepted_def labels_accepted_def)
  from try_not_str [OF free False, of e i t]
  obtain ex where "single_operation_try e operation i t w = Some (Inl ex, w)"
    by blast
  with na op_succeeds_not_str [OF False] free show ?thesis
    by (simp add: execute_single_operation_def BatchOperationResult_fields stands_for_def)
next
  case True
  then obtain n where PStr: "op_endpoint operation = PStr n"
    by (cases "op_endpoint operation") (simp_all add: is_str_def)
  show ?thesis
  proof (cases "map_of (endpoints (reg w)) n")
    case None
    have fails: "\<not> op_succeeds e (endpoints (reg w)) t i operation"
      using PStr None by (simp add: op_succeeds_def)
    show ?thesis
    proof (cases "fields_accepted operation")
      case True
      with try_not_found [OF free PStr None, of e i t] free fails show ?thesis
        by (simp add: execute_single_operation_def BatchOperationResult_fields stands_for_def
            result_of_def fields_accepted_str)
    next
      case False
      with try_not_found [OF free PStr None, of e i t] free fails show ?thesis
        by (simp add: execute_single_operation_def BatchOperationResult_fields stands_for_def)
    qed
  next
    case (Some info)
    let ?rq = "\<lparr> gw_url = ep_url info, gw_query = op_query operation,
                  gw_variables = op_variables operation, gw_headers = ep_headers info,
                  gw_timeout = t \<rparr>"
    show ?thesis
    proof (cases "gateway e i ?rq")
      case (GatewayRaises msg)
      have fails: "\<not> op_succeeds e (endpoints (reg w)) t i operation"
        using PStr Some GatewayRaises by (simp add: op_succeeds_def)
      from try_gateway_raises [OF free PStr Some GatewayRaises]
      obtain w' where w': "single_operation_try e operation i t w = Some (Inl (GatewayFault msg), w')"
        "reg w' = reg w" by blast
      with free fails show ?thesis
        by (cases "fields_accepted operation")
           (simp_all add: execute_single_operation_def BatchOperationResult_fields stands_for_def
              result_of_def fields_accepted_str)
    next
      case (GatewayReturns data errs)
      have succ: "op_succeeds e (endpoints (reg w)) t i operation
                    = (errs = [] \<and> fields_accepted operation)"
        using PStr Some GatewayReturns by (simp add: op_succeeds_def)
      from try_gateway_returns [OF free PStr Some GatewayReturns]
      obtain w' where w': "single_operation_try e operation i t w =
           Some (BatchOperationResult (op_name operation i) (errs = []) data
                   (if errs \<noteq> [] then Some (join ''; '' (map err_message errs)) else None)
                   (op_finished e i - op_started e i) (int i) (op_endpoint operation)
                   (op_query operation) (op_variables operation), w')"
        "\<not> lock_held (reg w')" "endpoints (reg w') = endpoints (reg w)"
        by blast
      with succ show ?thesis
        by (cases "fields_accepted operation")
           (simp_all add: execute_single_operation_def BatchOperationResult_fields stands_for_def
              result_of_def fields_accepted_str)
    qed
  qed
qed

lemma attempt_stands_for:
  assumes free: "\<not> lock_held (reg w)"
  shows "\<exists>out w'. attempt e operation i t w = Some (out, w')
           \<and> \<not> lock_held (reg w') \<and> endpoints (reg w') = endpoints (reg w)
           \<and> attempt_stands e (endpoints (reg w)) t i operation out"
proof -
  from execute_single_operation_stands [OF free, of e operation i t]
  obtain out w' where o: "execute_single_operation e operation i t w = Some (out, w')"
    "\<not> lock_held (reg w')" "endpoints (reg w') = endpoints (reg w)"
    "stands_for e (endpoints (reg w)) t i operation out"
    by blast
  show ?thesis
  proof (cases out)
    case (Inr r)
    with o show ?thesis
      by (simp add: attempt_def stands_for_def attempt_stands_def fields_accepted_def)
  next
    case (Inl ex)
    with o show ?thesis
      by (simp add: attempt_def stands_for_def attempt_stands_def error_result_labels
          result_of_def labels_accepted_str)
  qed
qed

lemma run_sequential_step:
  "run_sequential e coe t ((i, operation) # rest) rs w =
     (case attempt e operation i t w of
        None \<Rightarrow> None
      | Some (Inl ex, w1) \<Rightarrow> Some (Inl ex, w1)
      | Some (Inr r, w1) \<Rightarrow>
          if \<not> r_success r \<and> \<not> coe then Some (Inr (rs @ [r]), w1)
          else run_sequential e coe t rest (rs @ [r]) w1)"
  by (auto simp: attempt_def error_result_labels split: option.splits sum.splits)

lemma run_sequential_results:
  assumes "\<not> lock_held (reg w)"
  shows "\<exists>out w'. run_sequential e coe t (enumerate n ops) rs w = Some (out, w')
           \<and> \<not> lock_held (reg w') \<and> endpoints (reg w') = endpoints (reg w)
           \<and> sequential_outcome e (endpoints (reg w)) t coe n ops rs out"
  using assms
proof (induction ops arbitrary: n rs w)
  case Nil
  then show ?case by (simp add: sequential_outcome_def)
next
  case (Cons operation rest)
  from attempt_stands_for [OF Cons.prems, of e operation n t]
  obtain out1 w1 where a: "attempt e operation n t w = Some (out1, w1)"
    "\<not> lock_held (reg w1)" "endpoints (reg w1) = endpoints (reg w)"
    "attempt_stands e (endpoints (reg w)) t n operation out1"
    by blast
  show ?case
  proof (cases out1)
    case (Inl ex)
    with a show ?thesis
      by (simp add: run_sequential_step attempt_stands_def sequential_outcome_def
          del: run_sequential.simps)
  next
    case (Inr r)
    with a have r: "result_of e (endpoints (reg w)) t n operation r" "labels_accepted operation"
      by (simp_all add: attempt_stands_def)
    show ?thesis
    proof (cases "\<not> r_success r \<and> \<not> coe")
      case True
      have "sequential_outcome e (endpoints (reg w)) t coe n (operation # rest) rs (Inr (rs @ [r]))"
        unfolding sequential_outcome_def using r True
        by (cases rest) auto
      with a Inr True show ?thesis
        by (simp add: run_sequential_step del: run_sequential.simps)
    next
      case False
      from Cons.IH [OF a(2), of "Suc n" "rs @ [r]"]
      obtain out2 w2 where b: "run_sequential e coe t (enumerate (Suc n) rest) (rs @ [r]) w1 = Some (out2, w2)"
        "\<not> lock_held (reg w2)" "endpoints (reg w2) = endpoints (reg w1)"
        "sequential_outcome e (endpoints (reg w1)) t coe (Suc n) rest (rs @ [r]) out2"
        by blast
      have "sequential_outcome e (endpoints (reg w)) t coe n (operation # rest) rs out2"
      proof (cases out2)
        case (Inl ex)
        with b(4) show ?thesis by (simp add: sequential_outcome_def)
      next
        case (Inr rs')
        with b(4) a(3) obtain new where new: "rs' = (rs @ [r]) @ new"
          "list_all2 (\<lambda>p r. result_of e (endpoints (reg w)) t (fst p) (snd p) r)
                  (take (length new) (enumerate (Suc n) rest)) new"
          "length new = length rest
             \<or> (\<not> coe \<and> length new < length rest \<and> new \<noteq> [] \<and> \<not> r_success (last new))"
          by (auto simp: sequential_outcome_def)
        have "rs' = rs @ (r # new)" using new(1) by simp
        moreover have "list_all2 (\<lambda>p r. result_of e (endpoints (reg w)) t (fst p) (snd p) r)
                  (take (length (r # new)) (enumerate n (operation # rest))) (r # new)"
          using new(2) r(1) by simp
        moreover have "length (r # new) = length (operation # rest)
             \<or> (\<not> coe \<and> length (r # new) < length (operation # rest) \<and> r # new \<noteq> []
                  \<and> \<not> r_success (last (r # new)))"
          using new(3) by auto
        ultimately show ?thesis
          unfolding sequential_outcome_def Inr by (simp del: take_Suc_Cons)
      qed
      with a Inr False b show ?thesis
        by (auto simp add: run_sequential_step simp del: run_sequential.simps)
    qed
  qed
qed

lemma run_sequential_first_failure:
  assumes "\<not> coe" and "\<not> lock_held (reg w)" and "k < length ops"
    and "\<forall>j<k. op_succeeds e (endpoints (reg w)) t (n + j) (ops ! j)"
    and "\<not> op_succeeds e (endpoints (reg w)) t (n + k) (ops ! k)"
    and "labels_accepted (ops ! k)"
  shows "\<exists>new w'. run_sequential e coe t (enumerate n ops) rs w = Some (Inr (rs @ new), w')
           \<and> run_sequential e coe t (enumerate n (take (Suc k) ops)) rs w
                = Some (Inr (rs @ new), w')
           \<and> length new = Suc k
           \<and> list_all2 (\<lambda>p r. result_of e (endpoints (reg w)) t (fst p) (snd p) r)
                (enumerate n (take (Suc k) ops)) new"
  using assms
proof (induction k arbitrary: ops n rs w)
  case 0
  then obtain operation rest where ops: "ops = operation # rest"
    by (cases ops) auto
  from attempt_stands_for [OF "0.prems"(2), of e operation n t]
  obtain out1 w1 where a: "attempt e operation n t w = Some (out1, w1)"
    "attempt_stands e (endpoints (reg w)) t n operation out1"
    by blast
  from a(2) "0.prems"(5,6) ops obtain r where r: "out1 = Inr r"
    "result_of e (endpoints (reg w)) t n operation r" "\<not> r_success r"
    by (cases out1) (auto simp: attempt_stands_def result_of_def)
  with a "0.prems"(1) ops show ?case
    by (simp add: run_sequential_step del: run_sequential.simps)
next
  case (Suc k)
  then obtain operation rest where ops: "ops = operation # rest"
    by (cases ops) auto
  from attempt_stands_for [OF Suc.prems(2), of e operation n t]
  obtain out1 w1 where a: "attempt e operation n t w = Some (out1, w1)"
    "\<not> lock_held (reg w1)" "endpoints (reg w1) = endpoints (reg w)"
    "attempt_stands e (endpoints (reg w)) t n operation out1"
    by blast
  from Suc.prems(4) ops have s0: "op_succeeds e (endpoints (reg w)) t n operation"
    by force
  then have "labels_accepted operation"
    using op_succeeds_accepted by (auto simp: fields_accepted_def)
  with a(4) s0 obtain r where r: "out1 = Inr r"
    "result_of e (endpoints (reg w)) t n operation r" "r_success r"
    by (cases out1) (auto simp: attempt_stands_def result_of_def)
  have p3: "k < length rest" using Suc.prems(3) ops by simp
  have p4: "\<forall>j<k. op_succeeds e (endpoints (reg w1)) t (Suc n + j) (rest ! j)"
    using Suc.prems(4) ops a(3) by force
  have p5: "\<not> op_succeeds e (endpoints (reg w1)) t (Suc n + k) (rest ! k)"
    using Suc.prems(5) ops a(3) by simp
  have p6: "labels_accepted (rest ! k)"
    using Suc.prems(6) ops by simp
  from Suc.IH [OF Suc.prems(1) a(2) p3 p4 p5 p6, of "rs @ [r]"]
  obtain new w' where n: "run_sequential e coe t (enumerate (Suc n) rest) (rs @ [r]) w1
                             = Some (Inr ((rs @ [r]) @ new), w')"
    "run_sequential e coe t (enumerate (Suc n) (take (Suc k) rest)) (rs @ [r]) w1
       = Some (Inr ((rs @ [r]) @ new), w')"
    "length new = Suc k"
    "list_all2 (\<lambda>p r. result_of e (endpoints (reg w1)) t (fst p) (snd p) r)
                (enumerate (Suc n) (take (Suc k) rest)) new"
    by blast
  have "run_sequential e coe t (enumerate n ops) rs w = Some (Inr (rs @ (r # new)), w')"
    using a(1) r n(1) ops by (simp add: run_sequential_step del: run_sequential.simps)
  moreover have "run_sequential e coe t (enumerate n (take (Suc (Suc k)) ops)) rs w
                   = Some (Inr (rs @ (r # new)), w')"
    using a(1) r n(2) ops by (simp add: run_sequential_step del: run_sequential.simps)
  moreover have "length (r # new) = Suc (Suc k)" using n(3) by simp
  moreover have "list_all2 (\<lambda>p r. result_of e (endpoints (reg w)) t (fst p) (snd p) r)
                (enumerate n (take (Suc (Suc k)) ops)) (r # new)"
    using n(4) r(2) a(3) ops by simp
  ultimately show ?case by blast
qed

text \<open>Parallel mode.\<close>

lemma run_tasks_outcomes:
  assumes "\<not> lock_held (reg w)"
  shows "\<exists>finished w'. run_tasks e t ops turns w = Some (finished, w')
           \<and> \<not> lock_held (reg w') \<and> endpoints (reg w') = endpoints (reg w)
           \<and> map fst finished = turns
           \<and> list_all (\<lambda>(i, out). stands_for e (endpoints (reg w)) t i (ops ! i) out) finished"
  using assms
proof (induction turns arbitrary: w)
  case Nil
  then show ?case by simp
next
  case (Cons i rest)
  from execute_single_operation_stands [OF Cons.prems, of e "ops ! i" i t]
  obtain out w1 where o: "execute_single_operation e (ops ! i) i t w = Some (out, w1)"
    "\<not> lock_held (reg w1)" "endpoints (reg w1) = endpoints (reg w)"
    "stands_for e (endpoints (reg w)) t i (ops ! i) out"
    by blast
  from Cons.IH [OF o(2)] o(3)
  obtain finished w2 where g: "run_tasks e t ops rest w1 = Some (finished, w2)"
    "\<not> lock_held (reg w2)" "endpoints (reg w2) = endpoints (reg w)"
    "map fst finished = rest"
    "list_all (\<lambda>(i, out). stands_for e (endpoints (reg w)) t i (ops ! i) out) finished"
    by auto
  with o show ?case by simp
qed

lemma set_schedule: "set (schedule n order) = {0..<n}"
  by (auto simp: schedule_def Let_def)

lemma map_filter_all_Some:
  "\<forall>x \<in> set xs. f x \<noteq> None \<Longrightarrow> List.map_filter f xs = map (\<lambda>x. the (f x)) xs"
  by (induction xs) (auto simp: map_filter_simps)

lemma gather_outcomes:
  assumes "\<not> lock_held (reg w)"
  shows "\<exists>outs w'. gather e t ops w = Some (outs, w')
           \<and> \<not> lock_held (reg w') \<and> endpoints (reg w') = endpoints (reg w)
           \<and> list_all2 (\<lambda>p out. stands_for e (endpoints (reg w)) t (fst p) (snd p) out)
                (enumerate 0 ops) outs"
proof -
  let ?turns = "schedule (length ops) (completion_order e)"
  from run_tasks_outcomes [OF assms, of e t ops ?turns]
  obtain finished w' where f: "run_tasks e t ops ?turns w = Some (finished, w')"
    "\<not> lock_held (reg w')" "endpoints (reg w') = endpoints (reg w)"
    "map fst finished = ?turns"
    "list_all (\<lambda>(i, out). stands_for e (endpoints (reg w)) t i (ops ! i) out) finished"
    by blast
  have keys: "fst ` set finished = {0..<length ops}"
    using f(4) set_schedule [of "length ops" "completion_order e"] by (metis set_map)
  have some: "\<forall>i \<in> set [0..<length ops]. map_of finished i \<noteq> None"
    using keys by (simp add: map_of_eq_None_iff)
  let ?outs = "map (\<lambda>i. the (map_of finished i)) [0..<length ops]"
  have outs: "List.map_filter (map_of finished) [0..<length ops] = ?outs"
    using map_filter_all_Some [OF some] .
  have "list_all2 (\<lambda>p out. stands_for e (endpoints (reg w)) t (fst p) (snd p) out)
                (enumerate 0 ops) ?outs"
  proof (rule list_all2_all_nthI)
    show "length (enumerate 0 ops) = length ?outs" by simp
  next
    fix i assume "i < length (enumerate 0 ops)"
    then have i: "i < length ops" by simp
    with some have "map_of finished i \<noteq> None" by simp
    then obtain out where out: "map_of finished i = Some out" by blast
    then have "(i, out) \<in> set finished" by (rule map_of_SomeD)
    with f(5) have "stands_for e (endpoints (reg w)) t i (ops ! i) out"
      by (auto simp: list_all_iff)
    with i out show "stands_for e (endpoints (reg w)) t (fst (enumerate 0 ops ! i))
                       (snd (enumerate 0 ops ! i)) (?outs ! i)"
      by (simp add: nth_enumerate_eq)
  qed
  with f(1,2,3) outs show ?thesis
    by (simp add: gather_def)
qed

lemma convert_exceptions_results:
  assumes "list_all2 (\<lambda>p out. stands_for e registered t (fst p) (snd p) out)
             (enumerate n ops) outs"
  shows "parallel_outcome e registered t n ops (convert_exceptions (zip (enumerate n ops) outs))"
  using assms
proof (induction ops arbitrary: n outs)
  case Nil
  then show ?case by (simp add: parallel_outcome_def)
next
  case (Cons operation rest)
  from Cons.prems obtain out outs' where outs: "outs = out # outs'"
    "stands_for e registered t n operation out"
    "list_all2 (\<lambda>p out. stands_for e registered t (fst p) (snd p) out)
             (enumerate (Suc n) rest) outs'"
    by (cases outs) auto
  note ih = Cons.IH [OF outs(3)]
  show ?case
  proof (cases out)
    case (Inr r)
    with outs(2) have "result_of e registered t n operation r"
      by (simp add: stands_for_def)
    with ih Inr outs(1) show ?thesis
      by (auto simp: parallel_outcome_def split: sum.splits)
  next
    case (Inl ex)
    with outs(2) have f: "\<not> op_succeeds e registered t n operation"
      by (simp add: stands_for_def)
    show ?thesis
    proof (cases "labels_accepted operation")
      case True
      with ih Inl outs(1) f show ?thesis
        by (auto simp: parallel_outcome_def error_result_labels result_of_def
            labels_accepted_str split: sum.splits)
    next
      case False
      with Inl outs(1) show ?thesis
        by (simp add: parallel_outcome_def error_result_labels)
    qed
  qed
qed

lemma run_parallel_results:
  assumes "\<not> lock_held (reg w)"
  shows "\<exists>out w'. run_parallel e t ops w = Some (out, w')
           \<and> \<not> lock_held (reg w') \<and> endpoints (reg w') = endpoints (reg w)
           \<and> parallel_outcome e (endpoints (reg w)) t 0 ops out"
proof -
  from gather_outcomes [OF assms, of e t ops]
  obtain outs w' where g: "gather e t ops w = Some (outs, w')"
    "\<not> lock_held (reg w')" "endpoints (reg w') = endpoints (reg w)"
    "list_all2 (\<lambda>p out. stands_for e (endpoints (reg w)) t (fst p) (snd p) out)
                (enumerate 0 ops) outs"
    by blast
  from convert_exceptions_results [OF g(4)] g(1,2,3) show ?thesis
    by (simp add: run_parallel_def)
qed

lemma list_all2_enumerate_nth:
  assumes "list_all2 P (take (length rs) (enumerate n ops)) rs"
  shows "length rs \<le> length ops \<and> (\<forall>i<length rs. P (n + i, ops ! i) (rs ! i))"
proof -
  from list_all2_lengthD [OF assms] have len: "length rs \<le> length ops"
    by simp
  have "\<forall>i<length rs. P (n + i, ops ! i) (rs ! i)"
  proof (intro allI impI)
    fix i assume i: "i < length rs"
    with len have "take (length rs) (enumerate n ops) ! i = (n + i, ops ! i)"
      by (simp add: nth_enumerate_eq)
    with list_all2_nthD2 [OF assms i] show "P (n + i, ops ! i) (rs ! i)"
      by simp
  qed
  with len show ?thesis by simp
qed

lemma resolve_mode_cases: "resolve_mode m = PARALLEL \<longleftrightarrow> m = ''parallel''"
  by (auto simp: resolve_mode_def ExecutionMode_members_def)

lemma resolve_mode_not_parallel: "resolve_mode m \<noteq> PARALLEL \<longleftrightarrow> resolve_mode m = SEQUENTIAL"
  by (cases "resolve_mode m") simp_all

lemma batch_try_outcome:
  assumes free: "\<not> lock_held (reg w)"
  shows "\<exists>out w'. batch_try e ops m coe t w = Some (out, w')
           \<and> \<not> lock_held (reg w') \<and> endpoints (reg w') = endpoints (reg w)
           \<and> (case out of
                 Inl ex \<Rightarrow> \<not> list_all labels_accepted ops
               | Inr resp \<Rightarrow> response_stands e (endpoints (reg w)) t ops m coe resp)"
proof (cases "resolve_mode m = PARALLEL")
  case True
  from run_parallel_results [OF free, of e t ops]
  obtain out w' where p: "run_parallel e t ops w = Some (out, w')"
    "\<not> lock_held (reg w')" "endpoints (reg w') = endpoints (reg w)"
    "parallel_outcome e (endpoints (reg w)) t 0 ops out"
    by blast
  show ?thesis
  proof (cases out)
    case (Inl ex)
    with p True show ?thesis
      by (simp add: batch_try_def parallel_outcome_def)
  next
    case (Inr rs)
    with p(4) have l: "list_all2 (\<lambda>p r. result_of e (endpoints (reg w)) t (fst p) (snd p) r)
                         (enumerate 0 ops) rs"
      by (simp add: parallel_outcome_def)
    from list_all2_lengthD [OF l] have len: "length rs = length ops" by simp
    with l have "list_all2 (\<lambda>p r. result_of e (endpoints (reg w)) t (fst p) (snd p) r)
                         (take (length rs) (enumerate 0 ops)) rs"
      by simp
    from list_all2_enumerate_nth [OF this]
    have nth: "\<forall>i<length rs. result_of e (endpoints (reg w)) t i (ops ! i) (rs ! i)"
      by simp
    from p Inr True len nth show ?thesis
      by (simp add: batch_try_def response_stands_def Let_def)
  qed
next
  case False
  from run_sequential_results [OF free, of e coe t 0 ops "[]"]
  obtain out w' where s: "run_sequential e coe t (enumerate 0 ops) [] w = Some (out, w')"
    "\<not> lock_held (reg w')" "endpoints (reg w') = endpoints (reg w)"
    "sequential_outcome e (endpoints (reg w)) t coe 0 ops [] out"
    by blast
  show ?thesis
  proof (cases out)
    case (Inl ex)
    with s False show ?thesis
      by (simp add: batch_try_def sequential_outcome_def)
  next
    case (Inr rs)
    with s(4) have l: "list_all2 (\<lambda>p r. result_of e (endpoints (reg w)) t (fst p) (snd p) r)
                         (take (length rs) (enumerate 0 ops)) rs"
      and stop: "length rs = length ops
                   \<or> (\<not> coe \<and> length rs < length ops \<and> rs \<noteq> [] \<and> \<not> r_success (last rs))"
      by (simp_all add: sequential_outcome_def)
    from list_all2_enumerate_nth [OF l]
    have nth: "length rs \<le> length ops"
      "\<forall>i<length rs. result_of e (endpoints (reg w)) t i (ops ! i) (rs ! i)"
      by simp_all
    from False have sq: "resolve_mode m = SEQUENTIAL"
      by (simp add: resolve_mode_not_parallel)
    from s Inr False nth stop sq show ?thesis
      by (auto simp add: batch_try_def response_stands_def Let_def)
  qed
qed

lemma execute_batch_returns:
  assumes free: "\<not> lock_held (reg w)"
  shows "\<exists>resp w'. execute_batch_operations_async e ops m coe t w = Some (resp, w')
           \<and> \<not> lock_held (reg w') \<and> endpoints (reg w') = endpoints (reg w)
           \<and> (response_stands e (endpoints (reg w)) t ops m coe resp
                \<or> (\<not> list_all labels_accepted ops \<and> results resp = []
                     \<and> summary resp = BatchSummary_default (fault_time e)
                     \<and> length (errors resp) = 1))"
proof -
  from batch_try_outcome [OF free, of e ops m coe t]
  obtain out w' where b: "batch_try e ops m coe t w = Some (out, w')"
    "\<not> lock_held (reg w')" "endpoints (reg w') = endpoints (reg w)"
    "case out of Inl ex \<Rightarrow> \<not> list_all labels_accepted ops
     | Inr resp \<Rightarrow> response_stands e (endpoints (reg w)) t ops m coe resp"
    by blast
  then show ?thesis
    by (cases out) (simp_all add: execute_batch_operations_async_def)
qed



text \<open>
  Operations whose name and endpoint are strings (or absent). Called with the registry
  lock free, \<open>execute_batch_operations_async\<close> returns a response for every operation
  list, mode and flags. When the name and the endpoint of every operation are strings,
  the response has no top-level error, the \<open>i\<close>-th result belongs to the \<open>i\<close>-th
  operation, it has \<open>success = true\<close> exactly when that operation succeeds (registered
  endpoint, Gateway returns with no errors, query and variables of the accepted types)
  and otherwise \<open>success = false\<close> with an \<open>error\<close> that is not \<open>None\<close>, and every
  operation has its result, except that in sequential mode with
  \<open>continue_on_error = false\<close> the list ends with the first failed result.
\<close>

lemma failures_reported_for_string_labels:
  assumes "\<not> lock_held (reg w)"
  shows "\<exists>resp w'. execute_batch_operations_async e ops m coe t w = Some (resp, w')
           \<and> (list_all labels_accepted ops \<longrightarrow>
                errors resp = []
                \<and> (\<forall>i<length (results resp).
                      r_index (results resp ! i) = int i
                      \<and> r_success (results resp ! i)
                          = op_succeeds e (endpoints (reg w)) t i (ops ! i)
                      \<and> (r_success (results resp ! i) \<or> r_error (results resp ! i) \<noteq> None))
                \<and> (length (results resp) = length ops
                     \<or> (resolve_mode m = SEQUENTIAL \<and> \<not> coe \<and> results resp \<noteq> []
                          \<and> length (results resp) < length ops
                          \<and> \<not> r_success (last (results resp)))))"
proof -
  from execute_batch_returns [OF assms, of e ops m coe t]
  obtain resp w' where r: "execute_batch_operations_async e ops m coe t w = Some (resp, w')"
    "response_stands e (endpoints (reg w)) t ops m coe resp \<or> \<not> list_all labels_accepted ops"
    by blast
  from r(2) have "list_all labels_accepted ops \<longrightarrow>
                errors resp = []
                \<and> (\<forall>i<length (results resp).
                      r_index (results resp ! i) = int i
                      \<and> r_success (results resp ! i)
                          = op_succeeds e (endpoints (reg w)) t i (ops ! i)
                      \<and> (r_success (results resp ! i) \<or> r_error (results resp ! i) \<noteq> None))
                \<and> (length (results resp) = length ops
                     \<or> (resolve_mode m = SEQUENTIAL \<and> \<not> coe \<and> results resp \<noteq> []
                          \<and> length (results resp) < length ops
                          \<and> \<not> r_success (last (results resp))))"
    by (auto simp: response_stands_def result_of_def)
  with r(1) show ?thesis by blast
qed

lemma failures_reported_for_string_labels_example:
  "\<not> lock_held (reg example_service)
   \<and> list_all labels_accepted
        [[(''endpoint'', PStr ''ghost'')], query_operation ''b'', query_operation ''c'']
   \<and> (\<exists>resp w'. execute_batch_operations_async example_env
                   [[(''endpoint'', PStr ''ghost'')], query_operation ''b'', query_operation ''c'']
                   ''parallel'' False 30 example_service = Some (resp, w')
          \<and> errors resp = []
          \<and> map r_success (results resp) = [False, False, True]
          \<and> map r_error (results resp) = [Some ''Endpoint not found: ghost'', Some ''boom'', None])"
proof -
  let ?ops = "[[(''endpoint'', PStr ''ghost'')], query_operation ''b'', query_operation ''c'']"
  have h: "\<not> lock_held (reg example_service)"
    by (simp add: example_service_def used_registry_def)
  have l: "list_all labels_accepted ?ops"
    by code_simp
  from failures_reported_for_string_labels [OF h, of example_env ?ops "''parallel''" False 30] l
  obtain resp w' where r: "execute_batch_operations_async example_env ?ops
                   ''parallel'' False 30 example_service = Some (resp, w')"
    "errors resp = []"
    by blast
  have "map_option (\<lambda>(resp, w'). (map r_success (results resp), map r_error (results resp)))
          (execute_batch_operations_async example_env ?ops ''parallel'' False 30 example_service)
        = Some ([False, False, True], [Some ''Endpoint not found: ghost'', Some ''boom'', None])"
    by code_simp
  with r have "map r_success (results resp) = [False, False, True]
          \<and> map r_error (results resp) = [Some ''Endpoint not found: ghost'', Some ''boom'', None]"
    by simp
  with h l r show ?thesis by auto
qed

text \<open>
  C3 (every failure is reported). The claim: for every input the call returns a response
  and every operation that fails, for any reason, is in the result list as a
  \<open>BatchOperationResult\<close> with \<open>success = false\<close> and an error message. The code at the
  one-operation input \<open>{"endpoint": "ghost", "name": None}\<close>, in parallel mode: the
  operation fails (its endpoint is not registered), the call returns, and the response
  has an empty result list, \<open>total_operations = 0\<close> and one top-level error. The failed
  result is built from the name of the operation, which the result model rejects, in
  \<open>_execute_single_operation\<close>, again in its handler, and again in the loop under
  "Convert exceptions to error results"; the last exception ends the batch in the outer
  handler, and the failed operation is in no result.
\<close>

theorem failed_operation_not_reported:
  "\<not> op_succeeds example_env (endpoints (reg example_service)) 30 0
       [(''endpoint'', PStr ''ghost''), (''name'', PNone)]
   \<and> map_option (\<lambda>(resp, w'). (results resp, total_operations (summary resp),
                                  length (errors resp)))
       (execute_batch_operations_async example_env
          [[(''endpoint'', PStr ''ghost''), (''name'', PNone)]] ''parallel'' True 30
          example_service)
     = Some ([], 0, 1)"
  by code_simp

text \<open>
  Early stop when the failing operation has a string name and endpoint. In sequential
  mode with \<open>continue_on_error = false\<close>, called with the registry lock free: when
  operations \<open>0..k-1\<close> succeed, operation \<open>k\<close> does not, and the name and endpoint of
  operation \<open>k\<close> are strings (or absent), the response holds exactly \<open>k + 1\<close> results,
  those of operations \<open>0..k\<close> in input order, the first \<open>k\<close> successful and the last
  failed; the operations after \<open>k\<close> are never attempted (the results and the final state
  are those of the batch cut after operation \<open>k\<close>); \<open>total_operations\<close> is the length
  of the whole input and \<open>failed_operations\<close> is the number of results minus
  \<open>successful_operations\<close>.
\<close>

lemma early_stop_for_string_labels:
  assumes "\<not> lock_held (reg w)" and "resolve_mode m = SEQUENTIAL" and "\<not> coe"
    and "k < length ops"
    and "\<forall>j<k. op_succeeds e (endpoints (reg w)) t j (ops ! j)"
    and "\<not> op_succeeds e (endpoints (reg w)) t k (ops ! k)"
    and "labels_accepted (ops ! k)"
  shows "\<exists>resp w'. execute_batch_operations_async e ops m coe t w = Some (resp, w')
           \<and> length (results resp) = k + 1
           \<and> (\<forall>j\<le>k. r_index (results resp ! j) = int j
                      \<and> PStr (r_name (results resp ! j)) = op_name (ops ! j) j
                      \<and> PStr (r_endpoint (results resp ! j)) = op_endpoint (ops ! j))
           \<and> (\<forall>j<k. r_success (results resp ! j))
           \<and> \<not> r_success (results resp ! k)
           \<and> r_error (results resp ! k) \<noteq> None
           \<and> errors resp = []
           \<and> total_operations (summary resp) = int (length ops)
           \<and> failed_operations (summary resp)
                = int (length (results resp)) - successful_operations (summary resp)
           \<and> map_option (\<lambda>(resp', w''). (results resp', w''))
                (execute_batch_operations_async e (take (k + 1) ops) m coe t w)
              = Some (results resp, w')"
proof -
  from assms(5,6) have s: "\<forall>j<k. op_succeeds e (endpoints (reg w)) t (0 + j) (ops ! j)"
    "\<not> op_succeeds e (endpoints (reg w)) t (0 + k) (ops ! k)"
    by simp_all
  from run_sequential_first_failure [OF assms(3) assms(1) assms(4) s assms(7), of "[]"]
  obtain new w' where n: "run_sequential e coe t (enumerate 0 ops) [] w = Some (Inr new, w')"
    "run_sequential e coe t (enumerate 0 (take (Suc k) ops)) [] w = Some (Inr new, w')"
    "length new = Suc k"
    "list_all2 (\<lambda>p r. result_of e (endpoints (reg w)) t (fst p) (snd p) r)
                (enumerate 0 (take (Suc k) ops)) new"
    by auto
  have nth: "\<forall>j\<le>k. result_of e (endpoints (reg w)) t j (ops ! j) (new ! j)"
  proof (intro allI impI)
    fix j assume j: "j \<le> k"
    with n(3) have jl: "j < length new" by simp
    from j assms(4) have "enumerate 0 (take (Suc k) ops) ! j = (j, ops ! j)"
      by (simp add: nth_enumerate_eq)
    with list_all2_nthD2 [OF n(4) jl]
    show "result_of e (endpoints (reg w)) t j (ops ! j) (new ! j)"
      by simp
  qed
  let ?resp = "\<lparr> results = new,
                  summary = \<lparr> total_operations = int (length ops),
                              successful_operations = int (length (filter r_success new)),
                              failed_operations =
                                int (length new) - int (length (filter r_success new)),
                              total_execution_time = batch_completed e - batch_started e,
                              execution_mode = SEQUENTIAL,
                              started_at = batch_started e,
                              completed_at = Some (batch_completed e),
                              continue_on_error = coe \<rparr>,
                  errors = [] \<rparr>"
  have full: "execute_batch_operations_async e ops m coe t w = Some (?resp, w')"
    using n(1) assms(2)
    by (simp add: execute_batch_operations_async_def batch_try_def Let_def)
  have part: "map_option (\<lambda>(resp', w''). (results resp', w''))
                (execute_batch_operations_async e (take (k + 1) ops) m coe t w)
              = Some (new, w')"
    using n(2) assms(2)
    by (simp add: execute_batch_operations_async_def batch_try_def Let_def)
  have a: "\<forall>j\<le>k. r_index (new ! j) = int j
                      \<and> PStr (r_name (new ! j)) = op_name (ops ! j) j
                      \<and> PStr (r_endpoint (new ! j)) = op_endpoint (ops ! j)"
    using nth by (simp add: result_of_def)
  have b: "\<forall>j<k. r_success (new ! j)"
    using nth assms(5) by (simp add: result_of_def)
  have c: "\<not> r_success (new ! k)" "r_error (new ! k) \<noteq> None"
    using nth assms(6) by (auto simp add: result_of_def)
  from full part a b c n(3) show ?thesis
    by simp
qed

lemma early_stop_for_string_labels_example:
  "\<not> lock_held (reg example_service)
   \<and> resolve_mode ''sequential'' = SEQUENTIAL
   \<and> (1::nat) < length [query_operation ''a'', query_operation ''b'', query_operation ''c'']
   \<and> op_succeeds example_env (endpoints (reg example_service)) 30 0 (query_operation ''a'')
   \<and> \<not> op_succeeds example_env (endpoints (reg example_service)) 30 1 (query_operation ''b'')
   \<and> labels_accepted (query_operation ''b'')
   \<and> (\<exists>resp w'. execute_batch_operations_async example_env
                   [query_operation ''a'', query_operation ''b'', query_operation ''c'']
                   ''sequential'' False 30 example_service = Some (resp, w')
          \<and> length (results resp) = 2
          \<and> map r_success (results resp) = [True, False]
          \<and> total_operations (summary resp) = 3
          \<and> successful_operations (summary resp) = 1
          \<and> failed_operations (summary resp) = 1
          \<and> map fst (gateway_calls w') = [0, 1])"
proof -
  let ?ops = "[query_operation ''a'', query_operation ''b'', query_operation ''c'']"
  have h1: "\<not> lock_held (reg example_service)"
    by (simp add: example_service_def used_registry_def)
  have h2: "resolve_mode ''sequential'' = SEQUENTIAL" by code_simp
  have h3: "\<not> False" by simp
  have h4: "(1::nat) < length ?ops" by simp
  have s0: "op_succeeds example_env (endpoints (reg example_service)) 30 0 (query_operation ''a'')"
    by code_simp
  have h5: "\<forall>j<1. op_succeeds example_env (endpoints (reg example_service)) 30 j (?ops ! j)"
    using s0 by simp
  have s1: "\<not> op_succeeds example_env (endpoints (reg example_service)) 30 1 (query_operation ''b'')"
    by code_simp
  have h6: "\<not> op_succeeds example_env (endpoints (reg example_service)) 30 1 (?ops ! 1)"
    using s1 by simp
  have l1: "labels_accepted (query_operation ''b'')" by code_simp
  have h7: "labels_accepted (?ops ! 1)" using l1 by simp
  from early_stop_for_string_labels [OF h1 h2 h3 h4 h5 h6 h7]
  obtain resp w' where r: "execute_batch_operations_async example_env ?ops
                   ''sequential'' False 30 example_service = Some (resp, w')"
    "length (results resp) = 1 + 1"
    by blast
  have "map_option (\<lambda>(resp, w'). (map r_success (results resp), total_operations (summary resp),
            successful_operations (summary resp), failed_operations (summary resp),
            map fst (gateway_calls w')))
          (execute_batch_operations_async example_env ?ops ''sequential'' False 30 example_service)
        = Some ([True, False], 3, 1, 1, [0, 1])"
    by code_simp
  with r have "map r_success (results resp) = [True, False]
          \<and> total_operations (summary resp) = 3
          \<and> successful_operations (summary resp) = 1
          \<and> failed_operations (summary resp) = 1
          \<and> map fst (gateway_calls w') = [0, 1]"
    by simp
  with h1 h2 h4 s0 s1 l1 r show ?thesis by auto
qed

text \<open>
  C2 (sequential early stop). The claim: in sequential mode with
  \<open>continue_on_error = false\<close>, when operation \<open>k\<close> is the first failing operation the
  response holds exactly \<open>k + 1\<close> results (those of operations \<open>0..k\<close>, the last one
  failed) and \<open>total_operations\<close> is the length of the input. The code at the
  three-operation input whose second operation is \<open>{"name": 7, "endpoint": "api"}\<close>:
  operation 0 succeeds and the Gateway answers operation 1 with an error, so \<open>k = 1\<close>;
  both operations reach the Gateway and both accesses are recorded in the statistics
  (counters 2, 1, 1 before, 4, 2, 2 after), and the response has no result at all,
  \<open>total_operations = 0\<close> and one top-level error, where the claim says two results
  and \<open>total_operations = 3\<close>. The failed result of operation 1 is built from its name,
  which the result model rejects, in \<open>_execute_single_operation\<close>, in its handler and
  in the handler of the loop; the last exception ends the batch in the outer handler.
\<close>

theorem early_stop_results_lost:
  "op_succeeds example_env (endpoints (reg example_service)) 30 0 (query_operation ''a'')
   \<and> \<not> op_succeeds example_env (endpoints (reg example_service)) 30 1
         [(''name'', PInt 7), (''endpoint'', PStr ''api'')]
   \<and> counters (reg example_service) ''api'' = Some (2, 1, 1)
   \<and> map_option (\<lambda>(resp, w'). (length (results resp), total_operations (summary resp),
                                  length (errors resp), map fst (gateway_calls w'),
                                  counters (reg w') ''api''))
       (execute_batch_operations_async example_env
          [query_operation ''a'', [(''name'', PInt 7), (''endpoint'', PStr ''api'')],
           query_operation ''c''] ''sequential'' False 30 example_service)
     = Some (0, 0, 1, [0, 1], Some (4, 2, 2))"
  by code_simp

text \<open>
  An operation whose endpoint is a string that is not registered, executed with the
  registry lock free: \<open>_execute_single_operation\<close> leaves the state as it was (no call
  to the Gateway is logged, no statistics change), and when the name, query and
  variables of the operation have the accepted types it returns the result with
  \<open>success = false\<close> and \<open>error = "Endpoint not found: <name>"\<close>.
\<close>

lemma unknown_endpoint_accepted_fields:
  assumes "\<not> lock_held (reg w)" and "op_endpoint operation = PStr n"
    and "map_of (endpoints (reg w)) n = None"
  shows "\<exists>out. execute_single_operation e operation i t w = Some (out, w)
           \<and> (fields_accepted operation \<longrightarrow>
                out = Inr \<lparr> r_name = the_str (op_name operation i), r_success = False,
                            r_data = PNone, r_error = Some (''Endpoint not found: '' @ n),
                            r_execution_time = 0, r_index = int i, r_endpoint = n,
                            r_query = the_optional_str (op_query operation),
                            r_variables = the_optional_dict (op_variables operation) \<rparr>)"
proof (cases "fields_accepted operation")
  case True
  have n: "the_str (op_endpoint operation) = n"
    using assms(2) by (simp add: the_str_def)
  from True try_not_found [OF assms, of e i t] show ?thesis
    by (simp add: execute_single_operation_def BatchOperationResult_fields n)
next
  case False
  with try_not_found [OF assms, of e i t] show ?thesis
    by (simp add: execute_single_operation_def BatchOperationResult_fields)
qed

lemma unknown_endpoint_accepted_fields_example:
  "\<not> lock_held (reg example_service)
   \<and> op_endpoint [(''endpoint'', PStr ''ghost'')] = PStr ''ghost''
   \<and> map_of (endpoints (reg example_service)) ''ghost'' = None
   \<and> fields_accepted [(''endpoint'', PStr ''ghost'')]
   \<and> execute_single_operation example_env [(''endpoint'', PStr ''ghost'')] 0 30 example_service
       = Some (Inr \<lparr> r_name = ''operation_0'', r_success = False, r_data = PNone,
                     r_error = Some ''Endpoint not found: ghost'', r_execution_time = 0,
                     r_index = 0, r_endpoint = ''ghost'', r_query = Some [],
                     r_variables = Some [] \<rparr>, example_service)"
proof -
  let ?op = "[(''endpoint'', PStr ''ghost'')]"
  have h1: "\<not> lock_held (reg example_service)"
    by (simp add: example_service_def used_registry_def)
  have h2: "op_endpoint ?op = PStr ''ghost''" by code_simp
  have h3: "map_of (endpoints (reg example_service)) ''ghost'' = None" by code_simp
  have h4: "fields_accepted ?op" by code_simp
  have v: "the_str (op_name ?op 0) = ''operation_0''"
    "the_optional_str (op_query ?op) = Some []" "the_optional_dict (op_variables ?op) = Some []"
    by code_simp+
  from unknown_endpoint_accepted_fields [OF h1 h2 h3, of example_env 0 30] h4
  have "execute_single_operation example_env ?op 0 30 example_service
       = Some (Inr \<lparr> r_name = the_str (op_name ?op 0), r_success = False, r_data = PNone,
                     r_error = Some (''Endpoint not found: '' @ ''ghost''), r_execution_time = 0,
                     r_index = int 0, r_endpoint = ''ghost'',
                     r_query = the_optional_str (op_query ?op),
                     r_variables = the_optional_dict (op_variables ?op) \<rparr>, example_service)"
    by auto
  then have "execute_single_operation example_env ?op 0 30 example_service
       = Some (Inr \<lparr> r_name = ''operation_0'', r_success = False, r_data = PNone,
                     r_error = Some ''Endpoint not found: ghost'', r_execution_time = 0,
                     r_index = 0, r_endpoint = ''ghost'', r_query = Some [],
                     r_variables = Some [] \<rparr>, example_service)"
    unfolding v by simp
  with h1 h2 h3 h4 show ?thesis by simp
qed

text \<open>
  The state is as untouched when the value under \<open>"endpoint"\<close> is no registered name
  because it is not a string: the lookup finds nothing, or raises, before any call of
  the Gateway.
\<close>

lemma unregistered_endpoint_no_effect:
  assumes "\<not> lock_held (reg w)"
    and "case op_endpoint operation of
           PStr n \<Rightarrow> map_of (endpoints (reg w)) n = None
         | _ \<Rightarrow> True"
  shows "\<exists>out. execute_single_operation e operation i t w = Some (out, w)"
proof (cases "is_str (op_endpoint operation)")
  case True
  then obtain n where n: "op_endpoint operation = PStr n"
    by (cases "op_endpoint operation") (simp_all add: is_str_def)
  with assms(2) have "map_of (endpoints (reg w)) n = None" by simp
  from unknown_endpoint_accepted_fields [OF assms(1) n this] show ?thesis by blast
next
  case False
  from try_not_str [OF assms(1) False, of e i t]
  obtain ex where "single_operation_try e operation i t w = Some (Inl ex, w)"
    by blast
  then show ?thesis
    by (simp add: execute_single_operation_def)
qed

text \<open>
  C6 (unknown endpoint). The claim: for every operation whose endpoint is not registered,
  the result has \<open>success = false\<close> and \<open>error = "Endpoint not found: <name>"\<close>, the
  Gateway is not called and no statistics change. The code at the one-operation input
  \<open>{"endpoint": "ghost", "variables": [1]}\<close>, in sequential mode: the Gateway is not
  called and the statistics are as before, but the result of the operation has
  \<open>success = false\<close> with an error that is neither \<open>"Endpoint not found: ghost"\<close> nor
  \<open>None\<close>. \<open>_execute_single_operation\<close> builds the not-found result with the variables of
  the operation, which the result model rejects, and so does its handler; the handler of
  the loop, which leaves the variables out, reports the operation with the message of
  that exception.
\<close>

theorem unknown_endpoint_error_replaced:
  "map_of (endpoints (reg example_service)) ''ghost'' = None
   \<and> counters (reg example_service) ''api'' = Some (2, 1, 1)
   \<and> map_option (\<lambda>(resp, w').
         (map r_success (results resp),
          map (\<lambda>r. r_error r = Some ''Endpoint not found: ghost'') (results resp),
          map (\<lambda>r. r_error r = None) (results resp),
          gateway_calls w', counters (reg w') ''api''))
       (execute_batch_operations_async example_env
          [[(''endpoint'', PStr ''ghost''), (''variables'', PList [PInt 1])]]
          ''sequential'' True 30 example_service)
     = Some ([False], [False], [False], [], Some (2, 1, 1))"
  by code_simp

text \<open>
  C8 (unrecognized execution mode). For every mode string other than \<open>"sequential"\<close> and
  \<open>"parallel"\<close>, \<open>execute_batch_operations_async\<close> does exactly what it does in
  sequential mode (same response, same final state), every response it returns records
  \<open>SEQUENTIAL\<close> as the execution mode, and with the registry lock free it returns.
\<close>

theorem unrecognized_mode_is_sequential:
  assumes "m \<noteq> ''sequential''" and "m \<noteq> ''parallel''"
  shows "execute_batch_operations_async e ops m coe t w
           = execute_batch_operations_async e ops ''sequential'' coe t w
         \<and> (\<forall>resp w'. execute_batch_operations_async e ops m coe t w = Some (resp, w')
               \<longrightarrow> execution_mode (summary resp) = SEQUENTIAL)
         \<and> (\<not> lock_held (reg w) \<longrightarrow>
               (\<exists>resp w'. execute_batch_operations_async e ops m coe t w = Some (resp, w')))"
proof -
  from assms have m: "resolve_mode m = SEQUENTIAL"
    by (simp add: resolve_mode_def ExecutionMode_members_def)
  have s: "resolve_mode ''sequential'' = SEQUENTIAL"
    by (simp add: resolve_mode_def ExecutionMode_members_def)
  have eq: "execute_batch_operations_async e ops m coe t w
           = execute_batch_operations_async e ops ''sequential'' coe t w"
    by (simp add: execute_batch_operations_async_def batch_try_def m s)
  have mode: "\<forall>resp w'. execute_batch_operations_async e ops m coe t w = Some (resp, w')
               \<longrightarrow> execution_mode (summary resp) = SEQUENTIAL"
    by (auto simp add: execute_batch_operations_async_def batch_try_def m Let_def
        BatchSummary_default_def split: option.splits sum.splits)
  have ret: "\<not> lock_held (reg w) \<longrightarrow>
               (\<exists>resp w'. execute_batch_operations_async e ops m coe t w = Some (resp, w'))"
    using execute_batch_returns [of w e ops m coe t] by blast
  from eq mode ret show ?thesis by blast
qed

theorem unrecognized_mode_is_sequential_witness:
  "''bogus'' \<noteq> ''sequential'' \<and> ''bogus'' \<noteq> ''parallel''
   \<and> execute_batch_operations_async example_env
        [query_operation ''a'', query_operation ''b'', query_operation ''c'']
        ''bogus'' False 30 example_service
     = execute_batch_operations_async example_env
        [query_operation ''a'', query_operation ''b'', query_operation ''c'']
        ''sequential'' False 30 example_service
   \<and> map_option (\<lambda>(resp, w'). (length (results resp), execution_mode (summary resp)))
       (execute_batch_operations_async example_env
          [query_operation ''a'', query_operation ''b'', query_operation ''c'']
          ''bogus'' False 30 example_service)
     = Some (2, SEQUENTIAL)"
proof -
  have h1: "''bogus'' \<noteq> ''sequential''" by simp
  have h2: "''bogus'' \<noteq> ''parallel''" by simp
  have v: "map_option (\<lambda>(resp, w'). (length (results resp), execution_mode (summary resp)))
       (execute_batch_operations_async example_env
          [query_operation ''a'', query_operation ''b'', query_operation ''c'']
          ''bogus'' False 30 example_service)
     = Some (2, SEQUENTIAL)"
    by code_simp
  from unrecognized_mode_is_sequential [OF h1 h2, of example_env
      "[query_operation ''a'', query_operation ''b'', query_operation ''c'']" False 30
      example_service] h1 h2 v
  show ?thesis by blast
qed

text \<open>
  C10 (fault at the outer boundary). When an exception leaves the body of the outer
  \<open>try\<close>, \<open>execute_batch_operations_async\<close> returns a response with an empty result
  list, the message of the exception as the only entry of \<open>errors\<close>, and the default
  \<open>BatchSummary\<close>, whose three operation counts are 0, whatever the length of the input.
\<close>

theorem outer_fault_response:
  assumes "batch_try e ops m coe t w = Some (Inl ex, w')"
  shows "\<exists>resp. execute_batch_operations_async e ops m coe t w = Some (resp, w')
           \<and> results resp = []
           \<and> errors resp = [fault_str ex]
           \<and> summary resp = BatchSummary_default (fault_time e)
           \<and> total_operations (summary resp) = 0
           \<and> successful_operations (summary resp) = 0
           \<and> failed_operations (summary resp) = 0"
  using assms
  by (simp add: execute_batch_operations_async_def BatchSummary_default_def)

theorem outer_fault_response_witness:
  "map_option fst
     (batch_try example_env [query_operation ''a'', [(''name'', PNone), (''endpoint'', PStr ''api'')]]
        ''sequential'' True 30 example_service)
     = Some (Inl (ValidationError ''BatchOperationResult'' [''name'']))
   \<and> length [query_operation ''a'', [(''name'', PNone), (''endpoint'', PStr ''api'')]] = 2
   \<and> map_option (\<lambda>(resp, w'). (results resp, total_operations (summary resp),
          successful_operations (summary resp), failed_operations (summary resp), errors resp))
       (execute_batch_operations_async example_env
          [query_operation ''a'', [(''name'', PNone), (''endpoint'', PStr ''api'')]]
          ''sequential'' True 30 example_service)
     = Some ([], 0, 0, 0, [fault_str (ValidationError ''BatchOperationResult'' [''name''])])"
proof -
  let ?ops = "[query_operation ''a'', [(''name'', PNone), (''endpoint'', PStr ''api'')]]"
  let ?b = "batch_try example_env ?ops ''sequential'' True 30 example_service"
  have f: "map_option fst ?b = Some (Inl (ValidationError ''BatchOperationResult'' [''name'']))"
    by code_simp
  then have h: "?b = Some (Inl (ValidationError ''BatchOperationResult'' [''name'']), snd (the ?b))"
    by (cases ?b) auto
  from outer_fault_response [OF h]
  have "map_option (\<lambda>(resp, w'). (results resp, total_operations (summary resp),
          successful_operations (summary resp), failed_operations (summary resp), errors resp))
       (execute_batch_operations_async example_env ?ops ''sequential'' True 30 example_service)
     = Some ([], 0, 0, 0, [fault_str (ValidationError ''BatchOperationResult'' [''name''])])"
    by auto
  with f show ?thesis by simp
qed

text \<open>
  Where such an exception comes from: with the registry lock free the body of the outer
  \<open>try\<close> always ends, and it ends with an exception only when the name or the endpoint
  of some operation is not a string.
\<close>

lemma outer_fault_cause:
  assumes "\<not> lock_held (reg w)" and "batch_try e ops m coe t w = Some (Inl ex, w')"
  shows "\<not> list_all labels_accepted ops"
  using batch_try_outcome [OF assms(1), of e ops m coe t] assms(2) by auto

end
